theory Spec2Isabelle
  imports Main
begin

section \<open>mexec: a pipeline of shell commands, one per input line\<close>

text \<open>
  A shallow embedding of \<^verbatim>\<open>mexec.c\<close>. The program talks to the operating system all the
  time, so the model has two parts: the C functions of the program, translated one by
  one, and the system calls they use, whose answers come from an environment
  (\<open>env\<close>) that is a parameter of every function. A process is the program run
  against one environment: the parent is the run in which every \<^verbatim>\<open>fork\<close> returns a
  process identifier, the child of command \<open>i\<close> is the run in which call number \<open>i\<close> of
  \<^verbatim>\<open>fork\<close> returns 0.

  \<^verbatim>\<open>int\<close> values are modelled as \<open>int\<close> without overflow (the command counter would
  need 2^31 input lines to overflow), \<^verbatim>\<open>size_t\<close> values as \<open>int\<close> modulo 2^64 with
  the wrap-around written out.
\<close>

subsection \<open>Constants\<close>

definition MAX_LINE_LENGTH :: nat where
  "MAX_LINE_LENGTH = 1024"

text \<open>From the headers of the C library (\<^verbatim>\<open>stdlib.h\<close>, \<^verbatim>\<open>unistd.h\<close>) on a POSIX system.\<close>

definition EXIT_SUCCESS :: int where
  "EXIT_SUCCESS = 0"

definition EXIT_FAILURE :: int where
  "EXIT_FAILURE = 1"

definition STDIN_FILENO :: int where
  "STDIN_FILENO = 0"

definition STDOUT_FILENO :: int where
  "STDOUT_FILENO = 1"

definition NUL :: char where
  "NUL = CHR 0x00"

definition newline :: char where
  "newline = CHR 0x0A"

definition SIZE_MODULUS :: int where
  "SIZE_MODULUS = 2 ^ 64"

subsection \<open>Processes, descriptors and the environment\<close>

text \<open>What a descriptor refers to: something inherited from the caller of the program
  (named by the descriptor number it had then), or one end of the pipe made by call
  number \<open>k\<close> of \<^verbatim>\<open>pipe\<close>.\<close>

datatype chan = Inherited int | ReadEnd nat | WriteEnd nat

text \<open>How a child ended: \<^verbatim>\<open>exit\<close> with a status (its low eight bits are kept), or
  killed by a signal, with or without a core dump.\<close>

datatype child_end = Exited nat | Signaled nat bool

text \<open>The answer to \<^verbatim>\<open>waitpid(pid, &status, 0)\<close>: the child ended and its status is
  stored; the call fails (it returns -1 and stores nothing); or the child never ends
  and the call blocks for ever.\<close>

datatype wait_result = Reaped child_end | WaitError | NeverReturns

datatype syscall =
    SysPipe "(int \<times> int) option"
  | SysFork int
  | SysDup2 int int int
  | SysClose int int
  | SysWaitpid int wait_result
  | SysExeclp string "string list" bool

text \<open>What the program writes to standard error: \<^verbatim>\<open>perror\<close> with its prefix, or the
  usage message, whose \<^verbatim>\<open>%d\<close> is \<^verbatim>\<open>argc\<close>.\<close>

datatype message = Perror string | Usage int

record proc =
  fds :: "int \<Rightarrow> chan option"
  stderr :: "message list"
  log :: "syscall list"
  n_pipe :: nat
  n_fork :: nat

text \<open>How a process ends when it does not return from a function: \<^verbatim>\<open>exit\<close> with a
  status, a new process image (\<^verbatim>\<open>execlp\<close> succeeded: the file, the argument vector and
  the descriptors the image starts with), blocked for ever, or undefined behaviour of
  the C program.\<close>

datatype outcome =
    Exit int proc
  | Exec string "string list" proc
  | Hang proc
  | Undefined

record env =
  stdin_data :: string
  fopen_res :: "string \<Rightarrow> string option"
  strdup_fails :: "nat \<Rightarrow> bool"
  realloc_fails :: "nat \<Rightarrow> bool"
  fds0 :: "int \<Rightarrow> chan option"
  pipe_res :: "nat \<Rightarrow> (int \<times> int) option"
  fork_res :: "nat \<Rightarrow> int"
  close_eio :: "int \<Rightarrow> bool"
  execlp_ok :: bool
  wait_res :: "int \<Rightarrow> wait_result"
  status0 :: int

text \<open>
  The fields of the environment:
  \<^item> \<open>stdin_data\<close>: the bytes on standard input; \<open>fopen_res path\<close>: the bytes of the
    file, or \<open>None\<close> when \<^verbatim>\<open>fopen(path, "r")\<close> fails;
  \<^item> \<open>strdup_fails k\<close>, \<open>realloc_fails k\<close>: whether the allocation for command number
    \<open>k\<close> fails;
  \<^item> \<open>fds0\<close>: the descriptor table the program starts with;
  \<^item> \<open>pipe_res k\<close>: the descriptors (read end, write end) given by call number \<open>k\<close> of
    \<^verbatim>\<open>pipe\<close>, or \<open>None\<close> when it fails;
  \<^item> \<open>fork_res k\<close>: what call number \<open>k\<close> of \<^verbatim>\<open>fork\<close> returns in the process
    modelled;
  \<^item> \<open>close_eio fd\<close>: whether closing the open descriptor \<open>fd\<close> reports an
    input/output error;
  \<^item> \<open>execlp_ok\<close>: whether \<^verbatim>\<open>execlp\<close> finds and starts the shell;
  \<^item> \<open>wait_res pid\<close>: the answer to \<^verbatim>\<open>waitpid\<close> on \<open>pid\<close>;
  \<^item> \<open>status0\<close>: the indeterminate value that the uninitialised local \<^verbatim>\<open>status\<close> of
    \<^verbatim>\<open>wait_for_processes\<close> holds at first.
\<close>

definition proc0 :: "env \<Rightarrow> proc" where
  "proc0 e = \<lparr>fds = fds0 e, stderr = [], log = [], n_pipe = 0, n_fork = 0\<rparr>"

definition perror :: "string \<Rightarrow> proc \<Rightarrow> proc" where
  "perror msg s = s\<lparr>stderr := stderr s @ [Perror msg]\<rparr>"

definition record_call :: "syscall \<Rightarrow> proc \<Rightarrow> proc" where
  "record_call c s = s\<lparr>log := log s @ [c]\<rparr>"

subsection \<open>The C library on strings and streams\<close>

text \<open>\<^verbatim>\<open>fgets(line, n, fp)\<close> reads at most \<open>n - 1\<close> characters, stops after a
  newline or at the end of the stream, and stores a terminating NUL after them. It
  returns \<^verbatim>\<open>NULL\<close> when the stream is at its end. A stream is the list of the
  characters still to be read; the result is the buffer and the rest of the stream.\<close>

fun fgets_chars :: "nat \<Rightarrow> string \<Rightarrow> string \<times> string" where
  "fgets_chars 0 cs = ([], cs)"
| "fgets_chars (Suc n) [] = ([], [])"
| "fgets_chars (Suc n) (c # cs) =
     (if c = newline then ([c], cs)
      else (c # fst (fgets_chars n cs), snd (fgets_chars n cs)))"

definition fgets :: "nat \<Rightarrow> string \<Rightarrow> (string \<times> string) option" where
  "fgets n fp =
     (if fp = [] then None
      else Some (fst (fgets_chars (n - 1) fp) @ [NUL], snd (fgets_chars (n - 1) fp)))"

definition strlen :: "string \<Rightarrow> nat" where
  "strlen buf = length (takeWhile (\<lambda>c. c \<noteq> NUL) buf)"

definition strdup :: "string \<Rightarrow> string" where
  "strdup buf = takeWhile (\<lambda>c. c \<noteq> NUL) buf"

subsection \<open>\<^verbatim>\<open>read_input\<close>\<close>

text \<open>The index \<^verbatim>\<open>strlen(line) - 1\<close>, computed in \<^verbatim>\<open>size_t\<close>: 0 - 1 wraps around.\<close>

definition strip_index :: "string \<Rightarrow> int" where
  "strip_index line = (int (strlen line) - 1) mod SIZE_MODULUS"

text \<open>The access \<^verbatim>\<open>line[idx]\<close> is inside \<^verbatim>\<open>char line[MAX_LINE_LENGTH]\<close>.\<close>

definition in_bounds :: "int \<Rightarrow> bool" where
  "in_bounds idx = (0 \<le> idx \<and> idx < int MAX_LINE_LENGTH)"

lemma fgets_chars_rest_le: "length (snd (fgets_chars n cs)) \<le> length cs"
  by (induction n cs rule: fgets_chars.induct) auto

lemma fgets_chars_rest_less:
  "0 < n \<Longrightarrow> cs \<noteq> [] \<Longrightarrow> length (snd (fgets_chars n cs)) < length cs"
proof (cases n)
  case 0
  assume "0 < n"
  with 0 show ?thesis by simp
next
  case (Suc m)
  assume "cs \<noteq> []"
  then obtain c cs' where cs: "cs = c # cs'"
    by (cases cs) auto
  show ?thesis
    using fgets_chars_rest_le [of m cs'] by (simp add: Suc cs)
qed

lemma fgets_shorter:
  assumes "fgets MAX_LINE_LENGTH fp = Some (line, fp')"
  shows "length fp' < length fp"
proof -
  from assms have ne: "fp \<noteq> []" and r: "fp' = snd (fgets_chars (MAX_LINE_LENGTH - 1) fp)"
    by (auto simp: fgets_def split: if_splits)
  show ?thesis
    unfolding r by (rule fgets_chars_rest_less [OF _ ne]) (simp add: MAX_LINE_LENGTH_def)
qed

text \<open>The loop of \<^verbatim>\<open>read_input\<close>, with its variables: the stream, the array of
  commands and the counter \<^verbatim>\<open>read_commands\<close>. Reading \<^verbatim>\<open>line[strlen(line) - 1]\<close>
  outside the buffer is undefined behaviour.\<close>

function read_input_loop ::
  "env \<Rightarrow> string \<Rightarrow> string list \<Rightarrow> int \<Rightarrow> proc \<Rightarrow> outcome + ((string list \<times> int) \<times> proc)" where
  "read_input_loop e fp command_arr read_commands s =
     (case fgets MAX_LINE_LENGTH fp of
        None \<Rightarrow> Inr ((command_arr, read_commands), s)
      | Some (line, fp') \<Rightarrow>
          if \<not> in_bounds (strip_index line) then Inl Undefined
          else
            let line' = (if line ! nat (strip_index line) = newline
                         then line[nat (strip_index line) := NUL] else line)
            in if strdup_fails e (nat read_commands)
               then Inl (Exit EXIT_FAILURE (perror ''Memory allocation failed'' s))
               else if realloc_fails e (nat read_commands)
               then Inl (Exit EXIT_FAILURE (perror ''Memory reallocation failed'' s))
               else read_input_loop e fp' (command_arr @ [strdup line']) (read_commands + 1) s)"
  by pat_completeness auto
termination
  by (relation "measure (\<lambda>(e, fp, command_arr, read_commands, s). length fp)")
     (auto dest: fgets_shorter)

declare read_input_loop.simps [simp del]

definition read_input ::
  "env \<Rightarrow> string \<Rightarrow> proc \<Rightarrow> outcome + ((string list \<times> int) \<times> proc)" where
  "read_input e fp s = read_input_loop e fp [] 0 s"

subsection \<open>System calls\<close>

text \<open>\<^verbatim>\<open>pipe\<close>: call number \<open>k\<close> makes pipe \<open>k\<close> and installs its two ends at the
  descriptors the kernel chose, or fails and returns -1.\<close>

definition sys_pipe :: "env \<Rightarrow> proc \<Rightarrow> (int \<times> int) option \<times> proc" where
  "sys_pipe e s =
     (case pipe_res e (n_pipe s) of
        None \<Rightarrow> (None, record_call (SysPipe None) (s\<lparr>n_pipe := Suc (n_pipe s)\<rparr>))
      | Some (r, w) \<Rightarrow>
          (Some (r, w),
           record_call (SysPipe (Some (r, w)))
             (s\<lparr>fds := (fds s)(r \<mapsto> ReadEnd (n_pipe s), w \<mapsto> WriteEnd (n_pipe s)),
                n_pipe := Suc (n_pipe s)\<rparr>)))"

text \<open>\<^verbatim>\<open>fork\<close>: the process modelled goes on with the value the environment gives: -1
  (no child was made), 0 (this is the child, with a copy of the descriptor table) or
  the child's process identifier.\<close>

definition sys_fork :: "env \<Rightarrow> proc \<Rightarrow> int \<times> proc" where
  "sys_fork e s =
     (fork_res e (n_fork s),
      record_call (SysFork (fork_res e (n_fork s))) (s\<lparr>n_fork := Suc (n_fork s)\<rparr>))"

text \<open>\<^verbatim>\<open>dup2(oldfd, newfd)\<close>: fails when \<open>oldfd\<close> is not open; otherwise \<open>newfd\<close> refers
  to what \<open>oldfd\<close> refers to (what it referred to before is closed) and is returned.\<close>

definition sys_dup2 :: "int \<Rightarrow> int \<Rightarrow> proc \<Rightarrow> int \<times> proc" where
  "sys_dup2 oldfd newfd s =
     (case fds s oldfd of
        None \<Rightarrow> (- 1, record_call (SysDup2 oldfd newfd (- 1)) s)
      | Some c \<Rightarrow>
          (newfd, record_call (SysDup2 oldfd newfd newfd) (s\<lparr>fds := (fds s)(newfd \<mapsto> c)\<rparr>)))"

text \<open>\<^verbatim>\<open>close(fd)\<close>: fails when \<open>fd\<close> is not open; on an open descriptor it may
  report an input/output error, and the descriptor is released in any case (as Linux
  does).\<close>

definition sys_close :: "env \<Rightarrow> int \<Rightarrow> proc \<Rightarrow> int \<times> proc" where
  "sys_close e fd s =
     (case fds s fd of
        None \<Rightarrow> (- 1, record_call (SysClose fd (- 1)) s)
      | Some c \<Rightarrow>
          (if close_eio e fd
           then (- 1, record_call (SysClose fd (- 1)) (s\<lparr>fds := (fds s)(fd := None)\<rparr>))
           else (0, record_call (SysClose fd 0) (s\<lparr>fds := (fds s)(fd := None)\<rparr>))))"

text \<open>The value that \<^verbatim>\<open>waitpid\<close> stores in \<^verbatim>\<open>status\<close> for a child that ended (the
  encoding of Linux, read by the macros \<^verbatim>\<open>WIFEXITED\<close>, \<^verbatim>\<open>WEXITSTATUS\<close>,
  \<^verbatim>\<open>WTERMSIG\<close>): exit status in bits 8 to 15, signal number in bits 0 to 6, core
  flag in bit 7. Signal numbers lie between 1 and 126.\<close>

fun wstatus :: "child_end \<Rightarrow> int" where
  "wstatus (Exited c) = int (c mod 256) * 256"
| "wstatus (Signaled sig core) = int (sig mod 128) + (if core then 128 else 0)"

fun valid_end :: "child_end \<Rightarrow> bool" where
  "valid_end (Exited c) = True"
| "valid_end (Signaled sig core) = (0 < sig \<and> sig < 127)"

text \<open>The child exited normally with status 0
  (\<^verbatim>\<open>WIFEXITED(status) && WEXITSTATUS(status) == 0\<close>).\<close>

fun exited_ok :: "child_end \<Rightarrow> bool" where
  "exited_ok (Exited c) = (c mod 256 = 0)"
| "exited_ok (Signaled sig core) = False"

text \<open>\<^verbatim>\<open>waitpid(pid, &status, 0)\<close>: the result is the return value and the new
  content of \<^verbatim>\<open>status\<close>, or \<open>None\<close> when the call never returns.\<close>

definition sys_waitpid :: "env \<Rightarrow> int \<Rightarrow> int \<Rightarrow> proc \<Rightarrow> (int \<times> int) option \<times> proc" where
  "sys_waitpid e pid status s =
     (case wait_res e pid of
        Reaped t \<Rightarrow> Some (pid, wstatus t)
      | WaitError \<Rightarrow> Some (- 1, status)
      | NeverReturns \<Rightarrow> None,
      record_call (SysWaitpid pid (wait_res e pid)) s)"

text \<open>\<^verbatim>\<open>execlp(file, arg0, ..., NULL)\<close>: on success the process image is replaced and
  the call does not return; on failure it returns -1.\<close>

definition sys_execlp :: "env \<Rightarrow> string \<Rightarrow> string list \<Rightarrow> proc \<Rightarrow> outcome + proc" where
  "sys_execlp e file argv s =
     (if execlp_ok e then Inl (Exec file argv (record_call (SysExeclp file argv True) s))
      else Inr (record_call (SysExeclp file argv False) s))"

subsection \<open>\<^verbatim>\<open>execute\<close>, \<^verbatim>\<open>close_pipes\<close>, \<^verbatim>\<open>create_pipes\<close>\<close>

definition execute :: "env \<Rightarrow> string \<Rightarrow> proc \<Rightarrow> outcome" where
  "execute e command s =
     (case sys_execlp e ''sh'' [''sh'', ''-c'', command] s of
        Inl out \<Rightarrow> out
      | Inr s' \<Rightarrow> Exit EXIT_FAILURE (perror ''Exec failed'' s'))"

text \<open>\<^verbatim>\<open>pipe_array\<close> is the list of the pairs (read end, write end); it is filled from
  index 0 upwards, so storing pair \<open>i\<close> appends to the list.\<close>

function close_pipes_loop :: "env \<Rightarrow> int \<Rightarrow> (int \<times> int) list \<Rightarrow> int \<Rightarrow> proc \<Rightarrow> proc" where
  "close_pipes_loop e number_of_processes pipe_array i s =
     (if i < number_of_processes - 1
      then close_pipes_loop e number_of_processes pipe_array (i + 1)
             (snd (sys_close e (snd (pipe_array ! nat i))
                (snd (sys_close e (fst (pipe_array ! nat i)) s))))
      else s)"
  by pat_completeness auto
termination
  by (relation "measure (\<lambda>(e, n, pipe_array, i, s). nat (n - 1 - i))") auto

declare close_pipes_loop.simps [simp del]

definition close_pipes :: "env \<Rightarrow> int \<Rightarrow> (int \<times> int) list \<Rightarrow> proc \<Rightarrow> proc" where
  "close_pipes e number_of_processes pipe_array s =
     close_pipes_loop e number_of_processes pipe_array 0 s"

function create_pipes_loop ::
  "env \<Rightarrow> int \<Rightarrow> (int \<times> int) list \<Rightarrow> int \<Rightarrow> proc \<Rightarrow> outcome + ((int \<times> int) list \<times> proc)" where
  "create_pipes_loop e number_of_commands pipe_array i s =
     (if i < number_of_commands - 1
      then (case sys_pipe e s of
              (None, s') \<Rightarrow> Inl (Exit EXIT_FAILURE (perror ''Pipe failed'' s'))
            | (Some p, s') \<Rightarrow>
                create_pipes_loop e number_of_commands (pipe_array @ [p]) (i + 1) s')
      else Inr (pipe_array, s))"
  by pat_completeness auto
termination
  by (relation "measure (\<lambda>(e, n, pipe_array, i, s). nat (n - 1 - i))") auto

declare create_pipes_loop.simps [simp del]

definition create_pipes :: "env \<Rightarrow> int \<Rightarrow> proc \<Rightarrow> outcome + ((int \<times> int) list \<times> proc)" where
  "create_pipes e number_of_commands s = create_pipes_loop e number_of_commands [] 0 s"

subsection \<open>\<^verbatim>\<open>exec_command\<close>\<close>

text \<open>The two blocks of the child that rewire its standard input and output.\<close>

definition redirect_stdin :: "env \<Rightarrow> (int \<times> int) list \<Rightarrow> int \<Rightarrow> proc \<Rightarrow> outcome + proc" where
  "redirect_stdin e pipe_array current_iteration s =
     (if current_iteration > 0
      then (case sys_dup2 (fst (pipe_array ! nat (current_iteration - 1))) STDIN_FILENO s of
              (r, s') \<Rightarrow>
                if r = - 1 then Inl (Exit EXIT_FAILURE (perror ''dup2 for stdin failed'' s'))
                else Inr (snd (sys_close e (snd (pipe_array ! nat (current_iteration - 1))) s')))
      else Inr s)"

definition redirect_stdout ::
  "env \<Rightarrow> int \<Rightarrow> (int \<times> int) list \<Rightarrow> int \<Rightarrow> proc \<Rightarrow> outcome + proc" where
  "redirect_stdout e number_of_commands pipe_array current_iteration s =
     (if current_iteration < number_of_commands - 1
      then (case sys_dup2 (snd (pipe_array ! nat current_iteration)) STDOUT_FILENO s of
              (r, s') \<Rightarrow>
                if r = - 1 then Inl (Exit EXIT_FAILURE (perror ''dup2 for stdout failed'' s'))
                else Inr (snd (sys_close e (fst (pipe_array ! nat current_iteration)) s')))
      else Inr s)"

text \<open>The result in the parent is the value stored through \<^verbatim>\<open>process\<close>. The child
  never returns from the function.\<close>

definition exec_command ::
  "env \<Rightarrow> string \<Rightarrow> int \<Rightarrow> (int \<times> int) list \<Rightarrow> int \<Rightarrow> proc \<Rightarrow> outcome + (int \<times> proc)" where
  "exec_command e command number_of_commands pipe_array current_iteration s0 =
     (case sys_fork e s0 of
        (pid, s) \<Rightarrow>
          if pid = - 1 then Inl (Exit EXIT_FAILURE (perror ''Fork failed'' s))
          else if pid = 0 then
            (case redirect_stdin e pipe_array current_iteration s of
               Inl out \<Rightarrow> Inl out
             | Inr s1 \<Rightarrow>
                 (case redirect_stdout e number_of_commands pipe_array current_iteration s1 of
                    Inl out \<Rightarrow> Inl out
                  | Inr s2 \<Rightarrow>
                      Inl (execute e command
                             (close_pipes e number_of_commands pipe_array s2))))
          else Inr (pid, s))"

subsection \<open>\<^verbatim>\<open>wait_for_processes\<close>\<close>

function wait_loop :: "env \<Rightarrow> int list \<Rightarrow> int \<Rightarrow> int \<Rightarrow> int \<Rightarrow> proc \<Rightarrow> outcome + proc" where
  "wait_loop e processes number_of_processes i status s =
     (if i < number_of_processes
      then (case sys_waitpid e (processes ! nat i) status s of
              (None, s') \<Rightarrow> Inl (Hang s')
            | (Some (r, status'), s') \<Rightarrow>
                if status' \<noteq> 0
                then Inl (Exit EXIT_FAILURE (perror ''Child process failed'' s'))
                else wait_loop e processes number_of_processes (i + 1) status' s')
      else Inr s)"
  by pat_completeness auto
termination
  by (relation "measure (\<lambda>(e, processes, n, i, status, s). nat (n - i))") auto

declare wait_loop.simps [simp del]

definition wait_for_processes :: "env \<Rightarrow> int list \<Rightarrow> int \<Rightarrow> proc \<Rightarrow> outcome + proc" where
  "wait_for_processes e processes number_of_processes s =
     wait_loop e processes number_of_processes 0 (status0 e) s"

subsection \<open>\<^verbatim>\<open>main\<close>\<close>

text \<open>The loop of \<^verbatim>\<open>main\<close> that launches the commands; \<^verbatim>\<open>processes\<close> is filled from
  index 0 upwards.\<close>

function exec_loop ::
  "env \<Rightarrow> string list \<Rightarrow> int \<Rightarrow> (int \<times> int) list \<Rightarrow> int \<Rightarrow> int list \<Rightarrow> proc
     \<Rightarrow> outcome + (int list \<times> proc)" where
  "exec_loop e input_array number_of_commands pipe_array i processes s =
     (if i < number_of_commands
      then (case exec_command e (input_array ! nat i) number_of_commands pipe_array i s of
              Inl out \<Rightarrow> Inl out
            | Inr (pid, s') \<Rightarrow>
                exec_loop e input_array number_of_commands pipe_array (i + 1)
                  (processes @ [pid]) s')
      else Inr (processes, s))"
  by pat_completeness auto
termination
  by (relation "measure (\<lambda>(e, input_array, n, pipe_array, i, processes, s). nat (n - i))") auto

declare exec_loop.simps [simp del]

text \<open>The second half of \<^verbatim>\<open>main\<close>, from the declaration of \<^verbatim>\<open>pipe_array\<close> on.
  \<^verbatim>\<open>dealloc_arr\<close> only frees memory and leaves no trace in the model. The arrays
  \<^verbatim>\<open>pipe_array\<close> and \<^verbatim>\<open>processes\<close> are declared with a size that is not positive when
  there are fewer than two commands, or none; the model follows what compilers do
  with such a declaration: nothing is stored, and no element is ever accessed, since
  the loops over them do not run.\<close>

definition main_pipeline :: "env \<Rightarrow> string list \<Rightarrow> int \<Rightarrow> proc \<Rightarrow> outcome" where
  "main_pipeline e input_array number_of_commands s =
     (case create_pipes e number_of_commands s of
        Inl out \<Rightarrow> out
      | Inr (pipe_array, s1) \<Rightarrow>
          (case exec_loop e input_array number_of_commands pipe_array 0 [] s1 of
             Inl out \<Rightarrow> out
           | Inr (processes, s2) \<Rightarrow>
               (case wait_for_processes e processes number_of_commands
                       (close_pipes e number_of_commands pipe_array s2) of
                  Inl out \<Rightarrow> out
                | Inr s3 \<Rightarrow> Exit EXIT_SUCCESS s3)))"

text \<open>\<^verbatim>\<open>argv\<close> is the argument vector with the program name first, \<^verbatim>\<open>argc\<close> its
  length.\<close>

definition main :: "env \<Rightarrow> string list \<Rightarrow> outcome" where
  "main e argv =
     (let argc = int (length argv) in
      case (if argc = 1 then read_input e (stdin_data e) (proc0 e)
            else if argc = 2 then
              (case fopen_res e (argv ! 1) of
                 None \<Rightarrow> Inl (Exit EXIT_FAILURE (perror ''File could not be opened'' (proc0 e)))
               | Some fp \<Rightarrow> read_input e fp (proc0 e))
            else Inl (Exit EXIT_FAILURE ((proc0 e)\<lparr>stderr := [Usage argc]\<rparr>))) of
        Inl out \<Rightarrow> out
      | Inr ((input_array, number_of_commands), s) \<Rightarrow>
          main_pipeline e input_array number_of_commands s)"

subsection \<open>Observing a run\<close>

fun exit_status :: "outcome \<Rightarrow> int option" where
  "exit_status (Exit c s) = Some c"
| "exit_status (Exec file argv s) = None"
| "exit_status (Hang s) = None"
| "exit_status Undefined = None"

fun out_stderr :: "outcome \<Rightarrow> message list" where
  "out_stderr (Exit c s) = stderr s"
| "out_stderr (Exec file argv s) = stderr s"
| "out_stderr (Hang s) = stderr s"
| "out_stderr Undefined = []"

fun out_log :: "outcome \<Rightarrow> syscall list" where
  "out_log (Exit c s) = log s"
| "out_log (Exec file argv s) = log s"
| "out_log (Hang s) = log s"
| "out_log Undefined = []"

fun out_fds :: "outcome \<Rightarrow> int \<Rightarrow> chan option" where
  "out_fds (Exit c s) = fds s"
| "out_fds (Exec file argv s) = fds s"
| "out_fds (Hang s) = fds s"
| "out_fds Undefined = (\<lambda>fd. None)"

fun exec_argv :: "outcome \<Rightarrow> string list option" where
  "exec_argv (Exit c s) = None"
| "exec_argv (Exec file argv s) = Some argv"
| "exec_argv (Hang s) = None"
| "exec_argv Undefined = None"

fun is_pipe :: "syscall \<Rightarrow> bool" where
  "is_pipe (SysPipe r) = True"
| "is_pipe (SysFork pid) = False"
| "is_pipe (SysDup2 oldfd newfd r) = False"
| "is_pipe (SysClose fd r) = False"
| "is_pipe (SysWaitpid pid r) = False"
| "is_pipe (SysExeclp file argv ok) = False"

fun is_fork :: "syscall \<Rightarrow> bool" where
  "is_fork (SysPipe r) = False"
| "is_fork (SysFork pid) = True"
| "is_fork (SysDup2 oldfd newfd r) = False"
| "is_fork (SysClose fd r) = False"
| "is_fork (SysWaitpid pid r) = False"
| "is_fork (SysExeclp file argv ok) = False"

fun is_wait :: "syscall \<Rightarrow> bool" where
  "is_wait (SysPipe r) = False"
| "is_wait (SysFork pid) = False"
| "is_wait (SysDup2 oldfd newfd r) = False"
| "is_wait (SysClose fd r) = False"
| "is_wait (SysWaitpid pid r) = True"
| "is_wait (SysExeclp file argv ok) = False"

subsection \<open>Notions used by the properties\<close>

text \<open>The pieces into which reads of at most 1023 characters cut a line (given without
  its newline): full pieces of 1023 characters, then what is left, which may be empty.\<close>

function fragments :: "string \<Rightarrow> string list" where
  "fragments l = (if length l < 1023 then [l] else take 1023 l # fragments (drop 1023 l))"
  by pat_completeness auto
termination
  by (relation "measure length") auto

declare fragments.simps [simp del]

text \<open>The input made of the lines \<open>ls\<close>, each ended by a newline.\<close>

definition input_lines :: "string list \<Rightarrow> string" where
  "input_lines ls = concat (map (\<lambda>l. l @ [newline]) ls)"

text \<open>A line without its newline, and without NUL bytes.\<close>

definition plain_line :: "string \<Rightarrow> bool" where
  "plain_line l = (newline \<notin> set l \<and> NUL \<notin> set l)"

text \<open>No allocation of \<^verbatim>\<open>read_input\<close> fails.\<close>

definition allocs_ok :: "env \<Rightarrow> bool" where
  "allocs_ok e = (\<forall>k. \<not> strdup_fails e k \<and> \<not> realloc_fails e k)"

text \<open>The pairs of descriptors given by the calls number \<open>k\<close> to \<open>k + m - 1\<close> of
  \<^verbatim>\<open>pipe\<close>, these calls as they appear in the log, and the descriptor table after
  them.\<close>

definition bank :: "env \<Rightarrow> nat \<Rightarrow> nat \<Rightarrow> (int \<times> int) list" where
  "bank e k m = map (\<lambda>j. the (pipe_res e j)) [k..<k + m]"

definition pipe_calls :: "env \<Rightarrow> nat \<Rightarrow> nat \<Rightarrow> syscall list" where
  "pipe_calls e k m = map (\<lambda>j. SysPipe (pipe_res e j)) [k..<k + m]"

fun install :: "env \<Rightarrow> nat \<Rightarrow> nat \<Rightarrow> (int \<Rightarrow> chan option) \<Rightarrow> (int \<Rightarrow> chan option)" where
  "install e k 0 t = t"
| "install e k (Suc m) t =
     install e (Suc k) m
       (case pipe_res e k of
          None \<Rightarrow> t
        | Some (r, w) \<Rightarrow> t(r \<mapsto> ReadEnd k, w \<mapsto> WriteEnd k))"

text \<open>All the descriptors of a bank; the calls of \<^verbatim>\<open>close\<close>; the calls number \<open>k\<close> to
  \<open>k + m - 1\<close> of \<^verbatim>\<open>fork\<close> as they appear in the log, and what they return.\<close>

definition fd_list :: "(int \<times> int) list \<Rightarrow> int list" where
  "fd_list pipe_array = concat (map (\<lambda>p. [fst p, snd p]) pipe_array)"

fun is_close :: "syscall \<Rightarrow> bool" where
  "is_close (SysPipe r) = False"
| "is_close (SysFork pid) = False"
| "is_close (SysDup2 oldfd newfd r) = False"
| "is_close (SysClose fd r) = True"
| "is_close (SysWaitpid pid r) = False"
| "is_close (SysExeclp file argv ok) = False"

definition fork_calls :: "env \<Rightarrow> nat \<Rightarrow> nat \<Rightarrow> syscall list" where
  "fork_calls e k m = map (\<lambda>j. SysFork (fork_res e j)) [k..<k + m]"

definition pids :: "env \<Rightarrow> nat \<Rightarrow> nat \<Rightarrow> int list" where
  "pids e k m = map (fork_res e) [k..<k + m]"

text \<open>In the process modelled, the calls number \<open>k\<close> to \<open>k + m - 1\<close> of \<^verbatim>\<open>fork\<close> make
  a child and return in the parent.\<close>

definition forks_ok :: "env \<Rightarrow> nat \<Rightarrow> nat \<Rightarrow> bool" where
  "forks_ok e k m = list_all (\<lambda>j. fork_res e j \<noteq> - 1 \<and> fork_res e j \<noteq> 0) [k..<k + m]"

text \<open>\<^verbatim>\<open>waitpid\<close> on \<open>pid\<close> stores the status of a child that exited normally with
  status 0.\<close>

definition stage_ok :: "env \<Rightarrow> int \<Rightarrow> bool" where
  "stage_ok e pid = (case wait_res e pid of Reaped t \<Rightarrow> exited_ok t | WaitError \<Rightarrow> False
                     | NeverReturns \<Rightarrow> False)"

text \<open>\<^verbatim>\<open>waitpid\<close> on \<open>pid\<close> returns with the status of a child that ended.\<close>

definition reaped :: "env \<Rightarrow> int \<Rightarrow> bool" where
  "reaped e pid = (case wait_res e pid of Reaped t \<Rightarrow> valid_end t | WaitError \<Rightarrow> False
                   | NeverReturns \<Rightarrow> False)"

text \<open>The calls of \<^verbatim>\<open>waitpid\<close> on the processes \<open>ps\<close>, as they appear in the log.\<close>

definition wait_calls :: "env \<Rightarrow> int list \<Rightarrow> syscall list" where
  "wait_calls e ps = map (\<lambda>pid. SysWaitpid pid (wait_res e pid)) ps"

text \<open>The processes up to and including the first whose status is failing.\<close>

definition waited :: "env \<Rightarrow> int list \<Rightarrow> int list" where
  "waited e ps = takeWhile (stage_ok e) ps @ take 1 (dropWhile (stage_ok e) ps)"

text \<open>The first \<open>m\<close> calls of \<^verbatim>\<open>pipe\<close> succeed.\<close>

definition pipes_ok :: "env \<Rightarrow> nat \<Rightarrow> bool" where
  "pipes_ok e m = list_all (\<lambda>j. pipe_res e j \<noteq> None) [0..<m]"

text \<open>The log \<open>l\<close> continues the log of \<open>s\<close> with calls other than \<^verbatim>\<open>pipe\<close>.\<close>

definition no_more_pipes :: "proc \<Rightarrow> syscall list \<Rightarrow> bool" where
  "no_more_pipes s l = (\<exists>m. l = log s @ m \<and> list_all (\<lambda>c. \<not> is_pipe c) m)"

text \<open>The descriptors that the kernel gives for the first \<open>m\<close> pipes are new (different
  from each other, and not open when the program starts), and standard input and
  standard output are open when the program starts.\<close>

definition fresh_pipes :: "env \<Rightarrow> nat \<Rightarrow> bool" where
  "fresh_pipes e m =
     (distinct (fd_list (bank e 0 m))
      \<and> list_all (\<lambda>fd. fds0 e fd = None) (fd_list (bank e 0 m))
      \<and> fds0 e 0 \<noteq> None \<and> fds0 e 1 \<noteq> None)"

subsection \<open>A concrete environment\<close>

text \<open>Two commands on standard input; descriptors 0, 1 and 2 open; the kernel hands out
  the descriptors 3, 4, 5, ... for pipes and the process identifiers 100, 101, ...; no
  call fails and every child exits with status 0.\<close>

definition env_ok :: env where
  "env_ok =
     \<lparr>stdin_data = ''echo hello'' @ [newline] @ ''tr a-z A-Z'' @ [newline],
      fopen_res = (\<lambda>path. None),
      strdup_fails = (\<lambda>k. False),
      realloc_fails = (\<lambda>k. False),
      fds0 = [0 \<mapsto> Inherited 0, 1 \<mapsto> Inherited 1, 2 \<mapsto> Inherited 2],
      pipe_res = (\<lambda>k. Some (3 + 2 * int k, 4 + 2 * int k)),
      fork_res = (\<lambda>k. 100 + int k),
      close_eio = (\<lambda>fd. False),
      execlp_ok = True,
      wait_res = (\<lambda>pid. Reaped (Exited 0)),
      status0 = 0\<rparr>"

text \<open>Three commands, of which the second exits with status 1.\<close>

definition env_second_fails :: env where
  "env_second_fails =
     env_ok\<lparr>wait_res := (\<lambda>pid. if pid = 101 then Reaped (Exited 1) else Reaped (Exited 0))\<rparr>"

text \<open>The process in which the second call of \<^verbatim>\<open>fork\<close> returns 0: the child of the
  second command.\<close>

definition env_child :: env where
  "env_child = env_ok\<lparr>fork_res := (\<lambda>k. if k = 1 then 0 else 100 + int k)\<rparr>"

text \<open>The caller of the program ignores \<^verbatim>\<open>SIGCHLD\<close>, so that every \<^verbatim>\<open>waitpid\<close> fails;
  the input is the single command \<^verbatim>\<open>false\<close>; the uninitialised \<^verbatim>\<open>status\<close> holds 0. And
  the environment in which every \<^verbatim>\<open>close\<close> of an open descriptor reports an error.\<close>

definition env_wait_fails :: env where
  "env_wait_fails =
     env_ok\<lparr>stdin_data := ''false'' @ [newline], wait_res := (\<lambda>pid. WaitError), status0 := 0\<rparr>"

definition env_close_fails :: env where
  "env_close_fails = env_ok\<lparr>close_eio := (\<lambda>fd. True)\<rparr>"

text \<open>The program is started with standard input closed and a file of two commands as
  its argument: the kernel gives descriptor 0, the lowest that is free, to the read
  end of the pipe. The process is the child of the second command.\<close>

definition env_stdin_closed :: env where
  "env_stdin_closed =
     env_ok\<lparr>fopen_res := (\<lambda>path. Some (input_lines [''echo hi'', ''cat''])),
            fds0 := [1 \<mapsto> Inherited 1, 2 \<mapsto> Inherited 2],
            pipe_res := (\<lambda>k. Some (0, 3)),
            fork_res := (\<lambda>k. if k = 1 then 0 else 100 + int k)\<rparr>"

section \<open>Properties\<close>

subsection \<open>Reading lines\<close>

lemma fgets_chars_length: "length (fst (fgets_chars n cs)) \<le> n"
  by (induction n cs rule: fgets_chars.induct) auto

lemma fgets_chars_append: "fst (fgets_chars n cs) @ snd (fgets_chars n cs) = cs"
  by (induction n cs rule: fgets_chars.induct) auto

lemma fgets_chars_full:
  "newline \<notin> set l \<Longrightarrow> n \<le> length l \<Longrightarrow> fgets_chars n (l @ r) = (take n l, drop n l @ r)"
proof (induction n l rule: fgets_chars.induct)
  case (1 cs)
  then show ?case by simp
next
  case (2 n)
  then show ?case by simp
next
  case (3 n c cs)
  then show ?case by auto
qed

lemma fgets_chars_line:
  "newline \<notin> set l \<Longrightarrow> length l < n \<Longrightarrow> fgets_chars n (l @ newline # r) = (l @ [newline], r)"
proof (induction n l rule: fgets_chars.induct)
  case (1 cs)
  then show ?case by simp
next
  case (2 n)
  then show ?case by simp
next
  case (3 n c cs)
  then show ?case by auto
qed

lemma fgets_chars_Cons:
  "0 < n \<Longrightarrow> fgets_chars n (c # cs) =
     (if c = newline then ([c], cs)
      else (c # fst (fgets_chars (n - 1) cs), snd (fgets_chars (n - 1) cs)))"
  by (cases n) simp_all

lemma strlen_terminated: "NUL \<notin> set cs \<Longrightarrow> strlen (cs @ [NUL]) = length cs"
  by (induction cs) (auto simp: strlen_def)

lemma strdup_terminated: "NUL \<notin> set cs \<Longrightarrow> strdup (cs @ [NUL]) = cs"
  by (induction cs) (auto simp: strdup_def)

lemma strlen_le: "strlen (cs @ [NUL]) \<le> length cs"
  by (induction cs) (auto simp: strlen_def)

lemma fgets_line_shape:
  assumes "fgets MAX_LINE_LENGTH fp = Some (line, fp')"
  shows "\<exists>cs. line = cs @ [NUL] \<and> cs \<noteq> [] \<and> length cs \<le> 1023 \<and> cs @ fp' = fp"
proof -
  from assms have ne: "fp \<noteq> []"
    and l: "line = fst (fgets_chars 1023 fp) @ [NUL]"
    and r: "fp' = snd (fgets_chars 1023 fp)"
    by (auto simp: fgets_def MAX_LINE_LENGTH_def split: if_splits)
  have "fst (fgets_chars 1023 fp) \<noteq> []"
    using fgets_chars_rest_less [of 1023 fp] ne fgets_chars_append [of 1023 fp]
    by (metis append_Nil less_irrefl zero_less_numeral)
  then show ?thesis
    using l r fgets_chars_length [of 1023 fp] fgets_chars_append [of 1023 fp] by auto
qed

lemma strip_index_cases:
  assumes "strlen line \<le> 1023"
  shows "strip_index line = (if strlen line = 0 then SIZE_MODULUS - 1 else int (strlen line) - 1)"
proof (cases "strlen line = 0")
  case True
  then show ?thesis by (simp add: strip_index_def SIZE_MODULUS_def)
next
  case False
  with assms have "0 \<le> int (strlen line) - 1" "int (strlen line) - 1 < SIZE_MODULUS"
    by (simp_all add: SIZE_MODULUS_def)
  then show ?thesis using False by (simp add: strip_index_def)
qed

lemma in_bounds_iff:
  assumes "fgets MAX_LINE_LENGTH fp = Some (line, fp')"
  shows "in_bounds (strip_index line) \<longleftrightarrow> strlen line \<noteq> 0"
proof -
  from fgets_line_shape [OF assms] obtain cs where "line = cs @ [NUL]" "length cs \<le> 1023"
    by blast
  then have "strlen line \<le> 1023" using strlen_le [of cs] by simp
  then show ?thesis
    by (auto simp: strip_index_cases in_bounds_def MAX_LINE_LENGTH_def SIZE_MODULUS_def)
qed

lemma read_NUL_line:
  "\<exists>line fp'. fgets MAX_LINE_LENGTH (NUL # rest) = Some (line, fp') \<and> strlen line = 0
      \<and> \<not> in_bounds (strip_index line)
      \<and> read_input_loop e (NUL # rest) command_arr n s = Inl Undefined"
proof -
  obtain line fp' where f: "fgets MAX_LINE_LENGTH (NUL # rest) = Some (line, fp')"
    by (simp add: fgets_def)
  then have "hd line = NUL"
    by (auto simp: fgets_def MAX_LINE_LENGTH_def fgets_chars_Cons NUL_def newline_def
        split: if_splits)
  moreover from fgets_line_shape [OF f] have "line \<noteq> []" by auto
  ultimately have z: "strlen line = 0"
    by (cases line) (auto simp: strlen_def)
  with in_bounds_iff [OF f] have nb: "\<not> in_bounds (strip_index line)" by simp
  have "read_input_loop e (NUL # rest) command_arr n s = Inl Undefined"
    using f nb by (subst read_input_loop.simps) simp
  with f z nb show ?thesis by blast
qed


lemma fgets_full:
  assumes "newline \<notin> set l" "1023 \<le> length l"
  shows "fgets MAX_LINE_LENGTH (l @ r) = Some (take 1023 l @ [NUL], drop 1023 l @ r)"
proof -
  from assms(2) have "l @ r \<noteq> []" by auto
  then show ?thesis
    using fgets_chars_full [OF assms(1), of 1023 r] assms(2)
    by (simp add: fgets_def MAX_LINE_LENGTH_def)
qed

lemma fgets_line:
  assumes "newline \<notin> set l" "length l < 1023"
  shows "fgets MAX_LINE_LENGTH (l @ newline # r) = Some (l @ [newline, NUL], r)"
  using fgets_chars_line [OF assms(1), of 1023 r] assms(2)
  by (simp add: fgets_def MAX_LINE_LENGTH_def)

lemma read_full_fragment:
  assumes "allocs_ok e" "newline \<notin> set l" "NUL \<notin> set l" "1023 \<le> length l"
  shows "read_input_loop e (l @ r) command_arr n s
       = read_input_loop e (drop 1023 l @ r) (command_arr @ [take 1023 l]) (n + 1) s"
proof -
  let ?line = "take 1023 l @ [NUL]"
  have nul: "NUL \<notin> set (take 1023 l)" using assms(3) by (auto dest: in_set_takeD)
  have len: "strlen ?line = 1023"
    using strlen_terminated [OF nul] assms(4) by simp
  then have idx: "strip_index ?line = 1022"
    by (simp add: strip_index_cases)
  have "?line ! 1022 = l ! 1022" using assms(4) by (simp add: nth_append)
  moreover have "l ! 1022 \<in> set l" using assms(4) by simp
  ultimately have nonl: "?line ! 1022 \<noteq> newline" using assms(2) by metis
  have ib: "in_bounds (strip_index ?line)"
    by (simp add: idx in_bounds_def MAX_LINE_LENGTH_def)
  show ?thesis
    using assms(1) ib idx nonl strdup_terminated [OF nul]
    by (subst read_input_loop.simps)
       (simp add: fgets_full [OF assms(2) assms(4)] allocs_ok_def)
qed

lemma read_last_fragment:
  assumes "allocs_ok e" "newline \<notin> set l" "NUL \<notin> set l" "length l < 1023"
  shows "read_input_loop e (l @ newline # r) command_arr n s
       = read_input_loop e r (command_arr @ [l]) (n + 1) s"
proof -
  let ?line = "l @ [newline, NUL]"
  have nul: "NUL \<notin> set (l @ [newline])" using assms(3) by (simp add: NUL_def newline_def)
  have len: "strlen ?line = length l + 1"
    using strlen_terminated [OF nul] by simp
  then have idx: "strip_index ?line = int (length l)"
    using assms(4) by (simp add: strip_index_cases)
  have upd: "?line[length l := NUL] = l @ [NUL, NUL]" by (simp add: list_update_append)
  have dup: "strdup (l @ [NUL, NUL]) = l"
    using assms(3) by (induction l) (auto simp: strdup_def)
  have ib: "in_bounds (strip_index ?line)"
    using assms(4) by (simp add: idx in_bounds_def MAX_LINE_LENGTH_def)
  show ?thesis
    using assms(1) ib idx upd dup
    by (subst read_input_loop.simps)
       (simp add: fgets_line [OF assms(2) assms(4)] allocs_ok_def nth_append)
qed

lemma read_fragments:
  assumes "allocs_ok e"
  shows "newline \<notin> set l \<Longrightarrow> NUL \<notin> set l \<Longrightarrow>
     read_input_loop e (l @ newline # r) command_arr n s
       = read_input_loop e r (command_arr @ fragments l) (n + int (length (fragments l))) s"
proof (induction l arbitrary: command_arr n rule: fragments.induct)
  case (1 l)
  show ?case
  proof (cases "length l < 1023")
    case True
    then show ?thesis
      using read_last_fragment [OF assms 1(2) 1(3) True] by (simp add: fragments.simps [of l])
  next
    case False
    have a: "newline \<notin> set (drop 1023 l)" "NUL \<notin> set (drop 1023 l)"
      using 1(2) 1(3) by (auto dest: in_set_dropD)
    have "read_input_loop e (l @ newline # r) command_arr n s
        = read_input_loop e (drop 1023 l @ newline # r) (command_arr @ [take 1023 l]) (n + 1) s"
      using read_full_fragment [OF assms 1(2) 1(3), of "newline # r"] False by simp
    also have "\<dots> = read_input_loop e r ((command_arr @ [take 1023 l]) @ fragments (drop 1023 l))
                      ((n + 1) + int (length (fragments (drop 1023 l)))) s"
      using "1.IH" [OF False a] .
    finally show ?thesis
      using False by (simp add: fragments.simps [of l] add.assoc)
  qed
qed

lemma concat_fragments: "concat (fragments l) = l"
  by (induction l rule: fragments.induct) (subst fragments.simps, simp)

lemma fragments_nonempty: "fragments l \<noteq> []"
  by (subst fragments.simps) simp

lemma fragments_last: "length (last (fragments l)) < 1023"
proof (induction l rule: fragments.induct)
  case (1 l)
  show ?case
  proof (cases "length l < 1023")
    case True
    then show ?thesis by (subst fragments.simps) simp
  next
    case False
    have "last (fragments l) = last (fragments (drop 1023 l))"
      using False fragments_nonempty [of "drop 1023 l"] by (subst fragments.simps) simp
    with 1 False show ?thesis by simp
  qed
qed

lemma fragments_butlast: "f \<in> set (butlast (fragments l)) \<Longrightarrow> length f = 1023"
proof (induction l rule: fragments.induct)
  case (1 l)
  show ?case
  proof (cases "length l < 1023")
    case True
    with 1(2) show ?thesis by (simp add: fragments.simps [of l])
  next
    case False
    have "butlast (fragments l) = take 1023 l # butlast (fragments (drop 1023 l))"
      using False fragments_nonempty [of "drop 1023 l"] by (subst fragments.simps) simp
    with 1(2) have "f = take 1023 l \<or> f \<in> set (butlast (fragments (drop 1023 l)))"
      by simp
    then show ?thesis
    proof
      assume "f = take 1023 l"
      with False show ?thesis by simp
    next
      assume "f \<in> set (butlast (fragments (drop 1023 l)))"
      with 1(1) False show ?thesis by simp
    qed
  qed
qed

lemma fragments_many: "1023 \<le> length l \<Longrightarrow> 2 \<le> length (fragments l)"
proof -
  assume a: "1023 \<le> length l"
  obtain x xs where "fragments (drop 1023 l) = x # xs"
    using fragments_nonempty [of "drop 1023 l"] by (cases "fragments (drop 1023 l)") auto
  with a show ?thesis by (subst fragments.simps) simp
qed



lemma read_input_loop_eof: "read_input_loop e [] command_arr n s = Inr ((command_arr, n), s)"
  by (subst read_input_loop.simps) (simp add: fgets_def)

lemma read_lines:
  assumes "allocs_ok e"
  shows "list_all plain_line ls \<Longrightarrow>
     read_input_loop e (input_lines ls @ rest) command_arr n s
       = read_input_loop e rest (command_arr @ concat (map fragments ls))
           (n + int (length (concat (map fragments ls)))) s"
proof (induction ls arbitrary: command_arr n)
  case Nil
  show ?case by (simp add: input_lines_def)
next
  case (Cons l ls)
  from Cons.prems have pl: "plain_line l" and ls: "list_all plain_line ls"
    by simp_all
  from pl have l: "newline \<notin> set l" "NUL \<notin> set l"
    by (simp_all add: plain_line_def)
  have "read_input_loop e (input_lines (l # ls) @ rest) command_arr n s
      = read_input_loop e (l @ newline # (input_lines ls @ rest)) command_arr n s"
    by (simp add: input_lines_def)
  also have "\<dots> = read_input_loop e (input_lines ls @ rest) (command_arr @ fragments l)
      (n + int (length (fragments l))) s"
    by (rule read_fragments [OF assms l])
  also have "\<dots> = read_input_loop e rest ((command_arr @ fragments l) @ concat (map fragments ls))
      ((n + int (length (fragments l))) + int (length (concat (map fragments ls)))) s"
    by (rule Cons.IH [OF ls])
  finally show ?case by (simp add: add.assoc)
qed

lemma fragments_short: "length l < 1023 \<Longrightarrow> fragments l = [l]"
  by (subst fragments.simps) simp

lemma fragments_short_lines:
  "list_all (\<lambda>l. length l < 1023) ls \<Longrightarrow> concat (map fragments ls) = ls"
  by (induction ls) (simp_all add: fragments_short)

lemma read_input_lines:
  assumes "allocs_ok e" and "list_all plain_line ls"
  shows "read_input e (input_lines ls) s
       = Inr ((concat (map fragments ls), int (length (concat (map fragments ls)))), s)"
  using read_lines [OF assms, of "[]" "[]" 0 s]
  by (simp add: read_input_def read_input_loop_eof)

lemma read_input_short_lines:
  assumes "allocs_ok e" and "list_all plain_line ls" and "list_all (\<lambda>l. length l < 1023) ls"
  shows "read_input e (input_lines ls) s = Inr ((ls, int (length ls)), s)"
  using read_input_lines [OF assms(1) assms(2), of s] fragments_short_lines [OF assms(3)]
  by simp

subsection \<open>Starting the shell\<close>



subsection \<open>Empty input\<close>

text \<open>
  C1. When the input has no line (standard input is empty, or the file given as the
  argument is empty), the program makes no system call at all: no pipe is created, no
  process is launched, nothing is reported, and it exits with \<^verbatim>\<open>EXIT_SUCCESS\<close>, which
  is 0.
\<close>

theorem empty_input_runs_nothing:
  assumes "length argv = 1 \<and> stdin_data e = []
         \<or> length argv = 2 \<and> fopen_res e (argv ! 1) = Some []"
  shows "main e argv = Exit EXIT_SUCCESS (proc0 e) \<and> EXIT_SUCCESS = 0
       \<and> log (proc0 e) = [] \<and> stderr (proc0 e) = []"
  using assms
  by (auto simp: main_def read_input_def read_input_loop.simps fgets_def main_pipeline_def
      create_pipes_def create_pipes_loop.simps exec_loop.simps close_pipes_def
      close_pipes_loop.simps wait_for_processes_def wait_loop.simps proc0_def
      EXIT_SUCCESS_def)

theorem empty_input_runs_nothing_witness:
  "length [''mexec''] = 1 \<and> stdin_data (env_ok\<lparr>stdin_data := []\<rparr>) = []
   \<and> main (env_ok\<lparr>stdin_data := []\<rparr>) [''mexec'']
       = Exit 0 (proc0 (env_ok\<lparr>stdin_data := []\<rparr>))
   \<and> out_log (main (env_ok\<lparr>stdin_data := []\<rparr>) [''mexec'']) = []
   \<and> length [''mexec'', ''cmds''] = 2
   \<and> fopen_res (env_ok\<lparr>fopen_res := (\<lambda>path. Some [])\<rparr>) ([''mexec'', ''cmds''] ! 1) = Some []
   \<and> main (env_ok\<lparr>fopen_res := (\<lambda>path. Some [])\<rparr>) [''mexec'', ''cmds'']
       = Exit 0 (proc0 (env_ok\<lparr>fopen_res := (\<lambda>path. Some [])\<rparr>))"
  using empty_input_runs_nothing [of "[''mexec'']" "env_ok\<lparr>stdin_data := []\<rparr>"]
    empty_input_runs_nothing [of "[''mexec'', ''cmds'']" "env_ok\<lparr>fopen_res := (\<lambda>path. Some [])\<rparr>"]
  by (simp add: env_ok_def)

subsection \<open>The arguments of the program\<close>

text \<open>
  C7. With no argument (\<^verbatim>\<open>argc\<close> is 1) the commands are read from standard input:
  the program runs the pipeline of what \<^verbatim>\<open>read_input\<close> returns on it, and when
  standard input holds the lines \<open>ls\<close> (each ended by a newline, shorter than 1023
  characters, without NUL bytes, no allocation failing) it runs the pipeline of
  exactly the commands \<open>ls\<close>. With one argument the same holds for the content of the
  file of that name; when the file
  cannot be opened the program reports \<^verbatim>\<open>File could not be opened\<close> and exits with
  \<^verbatim>\<open>EXIT_FAILURE\<close>. With any other number of arguments it writes the usage message
  to standard error and exits with \<^verbatim>\<open>EXIT_FAILURE\<close>. In both error cases the program
  has made no system call: no process was launched. \<^verbatim>\<open>EXIT_FAILURE\<close> is not 0.
\<close>

theorem main_argument_count:
  "(length argv = 1 \<longrightarrow>
      main e argv =
        (case read_input e (stdin_data e) (proc0 e) of
           Inl out \<Rightarrow> out
         | Inr ((input_array, n), s) \<Rightarrow> main_pipeline e input_array n s))
   \<and> (length argv = 1 \<and> stdin_data e = input_lines ls \<and> allocs_ok e
        \<and> list_all plain_line ls \<and> list_all (\<lambda>l. length l < 1023) ls \<longrightarrow>
      main e argv = main_pipeline e ls (int (length ls)) (proc0 e))
   \<and> (length argv = 2 \<and> fopen_res e (argv ! 1) = Some fp \<longrightarrow>
      main e argv =
        (case read_input e fp (proc0 e) of
           Inl out \<Rightarrow> out
         | Inr ((input_array, n), s) \<Rightarrow> main_pipeline e input_array n s))
   \<and> (length argv = 2 \<and> fopen_res e (argv ! 1) = Some (input_lines ls) \<and> allocs_ok e
        \<and> list_all plain_line ls \<and> list_all (\<lambda>l. length l < 1023) ls \<longrightarrow>
      main e argv = main_pipeline e ls (int (length ls)) (proc0 e))
   \<and> (length argv = 2 \<and> fopen_res e (argv ! 1) = None \<longrightarrow>
      exit_status (main e argv) = Some EXIT_FAILURE
      \<and> out_stderr (main e argv) = [Perror ''File could not be opened'']
      \<and> out_log (main e argv) = [])
   \<and> (length argv \<noteq> 1 \<and> length argv \<noteq> 2 \<longrightarrow>
      exit_status (main e argv) = Some EXIT_FAILURE
      \<and> out_stderr (main e argv) = [Usage (int (length argv))]
      \<and> out_log (main e argv) = [])
   \<and> EXIT_FAILURE \<noteq> 0"
proof -
  have r: "read_input e (input_lines ls) (proc0 e) = Inr ((ls, int (length ls)), proc0 e)"
    if "allocs_ok e" and "list_all plain_line ls" and "list_all (\<lambda>l. length l < 1023) ls"
    using that by (rule read_input_short_lines)
  have a: "main e argv = main_pipeline e ls (int (length ls)) (proc0 e)"
    if "length argv = 1" and "stdin_data e = input_lines ls" and "allocs_ok e"
      and "list_all plain_line ls" and "list_all (\<lambda>l. length l < 1023) ls"
    using that(1) that(2) r [OF that(3) that(4) that(5)] by (simp add: main_def)
  have b: "main e argv = main_pipeline e ls (int (length ls)) (proc0 e)"
    if "length argv = 2" and "fopen_res e (argv ! 1) = Some (input_lines ls)"
      and "allocs_ok e" and "list_all plain_line ls" and "list_all (\<lambda>l. length l < 1023) ls"
    using that(1) that(2) r [OF that(3) that(4) that(5)] by (simp add: main_def)
  have c: "(length argv = 1 \<longrightarrow>
      main e argv =
        (case read_input e (stdin_data e) (proc0 e) of
           Inl out \<Rightarrow> out
         | Inr ((input_array, n), s) \<Rightarrow> main_pipeline e input_array n s))
   \<and> (length argv = 2 \<and> fopen_res e (argv ! 1) = Some fp \<longrightarrow>
      main e argv =
        (case read_input e fp (proc0 e) of
           Inl out \<Rightarrow> out
         | Inr ((input_array, n), s) \<Rightarrow> main_pipeline e input_array n s))
   \<and> (length argv = 2 \<and> fopen_res e (argv ! 1) = None \<longrightarrow>
      exit_status (main e argv) = Some EXIT_FAILURE
      \<and> out_stderr (main e argv) = [Perror ''File could not be opened'']
      \<and> out_log (main e argv) = [])
   \<and> (length argv \<noteq> 1 \<and> length argv \<noteq> 2 \<longrightarrow>
      exit_status (main e argv) = Some EXIT_FAILURE
      \<and> out_stderr (main e argv) = [Usage (int (length argv))]
      \<and> out_log (main e argv) = [])
   \<and> EXIT_FAILURE \<noteq> 0"
    by (simp add: main_def proc0_def perror_def EXIT_FAILURE_def)
  from a b c show ?thesis by blast
qed

theorem main_argument_count_witness:
  "length [''mexec''] = 1
   \<and> stdin_data env_ok = input_lines [''echo hello'', ''tr a-z A-Z''] \<and> allocs_ok env_ok
   \<and> list_all plain_line [''echo hello'', ''tr a-z A-Z'']
   \<and> list_all (\<lambda>l. length l < 1023) [''echo hello'', ''tr a-z A-Z'']
   \<and> main env_ok [''mexec'']
       = main_pipeline env_ok [''echo hello'', ''tr a-z A-Z''] 2 (proc0 env_ok)
   \<and> length [''mexec'', ''cmds''] = 2
   \<and> fopen_res (env_ok\<lparr>fopen_res := (\<lambda>path. Some (input_lines [''ls'', ''wc'']))\<rparr>)
        ([''mexec'', ''cmds''] ! 1) = Some (input_lines [''ls'', ''wc''])
   \<and> allocs_ok (env_ok\<lparr>fopen_res := (\<lambda>path. Some (input_lines [''ls'', ''wc'']))\<rparr>)
   \<and> list_all plain_line [''ls'', ''wc''] \<and> list_all (\<lambda>l. length l < 1023) [''ls'', ''wc'']
   \<and> main (env_ok\<lparr>fopen_res := (\<lambda>path. Some (input_lines [''ls'', ''wc'']))\<rparr>)
        [''mexec'', ''cmds'']
       = main_pipeline (env_ok\<lparr>fopen_res := (\<lambda>path. Some (input_lines [''ls'', ''wc'']))\<rparr>)
           [''ls'', ''wc''] 2
           (proc0 (env_ok\<lparr>fopen_res := (\<lambda>path. Some (input_lines [''ls'', ''wc'']))\<rparr>))
   \<and> fopen_res env_ok ([''mexec'', ''cmds''] ! 1) = None
   \<and> exit_status (main env_ok [''mexec'', ''cmds'']) = Some 1
   \<and> out_stderr (main env_ok [''mexec'', ''cmds'']) = [Perror ''File could not be opened'']
   \<and> out_log (main env_ok [''mexec'', ''cmds'']) = []
   \<and> length [''mexec'', ''a'', ''b''] \<noteq> 1 \<and> length [''mexec'', ''a'', ''b''] \<noteq> 2
   \<and> exit_status (main env_ok [''mexec'', ''a'', ''b'']) = Some 1
   \<and> out_stderr (main env_ok [''mexec'', ''a'', ''b'']) = [Usage 3]
   \<and> out_log (main env_ok [''mexec'', ''a'', ''b'']) = []"
proof -
  let ?ef = "env_ok\<lparr>fopen_res := (\<lambda>path. Some (input_lines [''ls'', ''wc'']))\<rparr>"
  have h1: "stdin_data env_ok = input_lines [''echo hello'', ''tr a-z A-Z'']"
    by (simp add: env_ok_def input_lines_def)
  have h2: "allocs_ok env_ok" "allocs_ok ?ef"
    by (simp_all add: allocs_ok_def env_ok_def)
  have h3: "list_all plain_line [''echo hello'', ''tr a-z A-Z'']" "list_all plain_line [''ls'', ''wc'']"
    by (simp_all add: plain_line_def newline_def NUL_def)
  have h4: "list_all (\<lambda>l. length l < 1023) [''echo hello'', ''tr a-z A-Z'']"
    "list_all (\<lambda>l. length l < 1023) [''ls'', ''wc'']"
    by simp_all
  have h5: "fopen_res ?ef ([''mexec'', ''cmds''] ! 1) = Some (input_lines [''ls'', ''wc''])"
    "fopen_res env_ok ([''mexec'', ''cmds''] ! 1) = None"
    by (simp_all add: env_ok_def)
  have a: "main env_ok [''mexec'']
      = main_pipeline env_ok [''echo hello'', ''tr a-z A-Z''] 2 (proc0 env_ok)"
  proof -
    have "length [''mexec''] = 1" by simp
    with main_argument_count [of "[''mexec'']" env_ok "[''echo hello'', ''tr a-z A-Z'']"]
      h1 h2(1) h3(1) h4(1)
    have "main env_ok [''mexec'']
        = main_pipeline env_ok [''echo hello'', ''tr a-z A-Z'']
            (int (length [''echo hello'', ''tr a-z A-Z''])) (proc0 env_ok)"
      by blast
    then show ?thesis by simp
  qed
  have b: "main ?ef [''mexec'', ''cmds''] = main_pipeline ?ef [''ls'', ''wc''] 2 (proc0 ?ef)"
  proof -
    have "length [''mexec'', ''cmds''] = 2" by simp
    with main_argument_count [of "[''mexec'', ''cmds'']" ?ef "[''ls'', ''wc'']"]
      h5(1) h2(2) h3(2) h4(2)
    have "main ?ef [''mexec'', ''cmds'']
        = main_pipeline ?ef [''ls'', ''wc''] (int (length [''ls'', ''wc''])) (proc0 ?ef)"
      by blast
    then show ?thesis by simp
  qed
  have c: "exit_status (main env_ok [''mexec'', ''cmds'']) = Some 1
      \<and> out_stderr (main env_ok [''mexec'', ''cmds'']) = [Perror ''File could not be opened'']
      \<and> out_log (main env_ok [''mexec'', ''cmds'']) = []"
    using main_argument_count [of "[''mexec'', ''cmds'']" env_ok] h5(2)
    by (simp add: EXIT_FAILURE_def)
  have d: "exit_status (main env_ok [''mexec'', ''a'', ''b'']) = Some 1
      \<and> out_stderr (main env_ok [''mexec'', ''a'', ''b'']) = [Usage 3]
      \<and> out_log (main env_ok [''mexec'', ''a'', ''b'']) = []"
    using main_argument_count [of "[''mexec'', ''a'', ''b'']" env_ok]
    by (simp add: EXIT_FAILURE_def)
  from h1 h2 h3 h4 h5 a b c d show ?thesis by simp
qed

subsection \<open>Long lines and empty strings in \<^verbatim>\<open>read_input\<close>\<close>

text \<open>
  C9. A call of \<^verbatim>\<open>fgets\<close> with the buffer of 1024 bytes takes at most 1023 characters
  from the stream, and the string it stores has at most 1023 characters. So a line of
  more than 1023 characters (without NUL bytes, and when no allocation fails) does not
  become one command: \<^verbatim>\<open>read_input\<close> returns for it the consecutive pieces
  \<open>fragments l\<close>, at least two, each but the last of exactly 1023 characters, which put
  together are the line without its newline; this holds for the line alone and for the
  line between other lines, whose commands come before and after its pieces. Only the
  last read of the line meets the newline, and strips it.
\<close>

theorem long_line_is_split:
  assumes "allocs_ok e" and "newline \<notin> set l" and "NUL \<notin> set l" and "1023 < length l"
    and "list_all plain_line before" and "list_all plain_line after"
  shows "(\<forall>fp line fp'. fgets MAX_LINE_LENGTH fp = Some (line, fp') \<longrightarrow>
            strlen line \<le> 1023 \<and> length line \<le> MAX_LINE_LENGTH
            \<and> length fp \<le> length fp' + 1023)
       \<and> read_input e (input_lines before @ l @ newline # input_lines after) s
           = Inr ((concat (map fragments before) @ fragments l @ concat (map fragments after),
                   int (length (concat (map fragments before)) + length (fragments l)
                        + length (concat (map fragments after)))), s)
       \<and> read_input e (l @ [newline]) s = Inr ((fragments l, int (length (fragments l))), s)
       \<and> read_input_loop e (l @ newline # rest) command_arr n s
           = read_input_loop e rest (command_arr @ fragments l)
               (n + int (length (fragments l))) s
       \<and> 2 \<le> length (fragments l) \<and> concat (fragments l) = l
       \<and> (\<forall>f \<in> set (butlast (fragments l)). length f = 1023)
       \<and> length (last (fragments l)) < 1023"
proof -
  have reads: "strlen line \<le> 1023 \<and> length line \<le> MAX_LINE_LENGTH
      \<and> length fp \<le> length fp' + 1023"
    if "fgets MAX_LINE_LENGTH fp = Some (line, fp')" for fp line fp'
  proof -
    from fgets_line_shape [OF that] obtain cs
      where cs: "line = cs @ [NUL]" "length cs \<le> 1023" "cs @ fp' = fp"
      by blast
    have "length fp = length cs + length fp'"
      using cs(3) by (metis length_append)
    then show ?thesis
      using cs(1) cs(2) strlen_le [of cs] by (simp add: MAX_LINE_LENGTH_def)
  qed
  have pl: "plain_line l"
    using assms(2) assms(3) by (simp add: plain_line_def)
  have all: "list_all plain_line (before @ [l] @ after)"
    using assms(5) assms(6) pl by simp
  have "input_lines (before @ [l] @ after) = input_lines before @ l @ newline # input_lines after"
    by (simp add: input_lines_def)
  with read_input_lines [OF assms(1) all, of s]
  have whole: "read_input e (input_lines before @ l @ newline # input_lines after) s
           = Inr ((concat (map fragments before) @ fragments l @ concat (map fragments after),
                   int (length (concat (map fragments before)) + length (fragments l)
                        + length (concat (map fragments after)))), s)"
    by simp
  have "list_all plain_line [l]" using pl by simp
  from read_input_lines [OF assms(1) this, of s]
  have alone: "read_input e (l @ [newline]) s = Inr ((fragments l, int (length (fragments l))), s)"
    by (simp add: input_lines_def)
  have loop: "read_input_loop e (l @ newline # rest) command_arr n s
      = read_input_loop e rest (command_arr @ fragments l) (n + int (length (fragments l))) s"
    by (rule read_fragments [OF assms(1) assms(2) assms(3)])
  have "2 \<le> length (fragments l)"
    using assms(4) by (intro fragments_many) simp
  with whole alone loop show ?thesis
    using reads concat_fragments [of l] fragments_butlast [of _ l] fragments_last [of l]
    by blast
qed

theorem long_line_is_split_witness:
  "allocs_ok env_ok \<and> newline \<notin> set (replicate 1500 CHR ''a'')
   \<and> NUL \<notin> set (replicate 1500 CHR ''a'') \<and> 1023 < length (replicate 1500 CHR ''a'')
   \<and> list_all plain_line [''ls''] \<and> list_all plain_line [''wc'']
   \<and> read_input env_ok (replicate 1500 CHR ''a'' @ [newline]) (proc0 env_ok)
       = Inr (([replicate 1023 CHR ''a'', replicate 477 CHR ''a''], 2), proc0 env_ok)
   \<and> read_input env_ok
         (''ls'' @ [newline] @ replicate 1500 CHR ''a'' @ [newline] @ ''wc'' @ [newline])
         (proc0 env_ok)
       = Inr (([''ls'', replicate 1023 CHR ''a'', replicate 477 CHR ''a'', ''wc''], 4),
              proc0 env_ok)"
proof -
  have a: "allocs_ok env_ok"
    by (simp add: allocs_ok_def env_ok_def)
  have b: "newline \<notin> set (replicate 1500 CHR ''a'')" "NUL \<notin> set (replicate 1500 CHR ''a'')"
    by (simp_all add: newline_def NUL_def)
  have c: "1023 < length (replicate 1500 CHR ''a'')"
    by simp
  have d: "list_all plain_line [''ls'']" "list_all plain_line [''wc'']"
    by (simp_all add: plain_line_def newline_def NUL_def)
  have f2: "fragments (replicate 477 CHR ''a'') = [replicate 477 CHR ''a'']"
    by (subst fragments.simps) simp
  have f: "fragments (replicate 1500 CHR ''a'')
      = [replicate 1023 CHR ''a'', replicate 477 CHR ''a'']"
    by (subst fragments.simps) (simp add: f2)
  have g: "fragments ''ls'' = [''ls'']" "fragments ''wc'' = [''wc'']"
    by (simp_all add: fragments_short)
  note t = long_line_is_split [OF a b c d, of "proc0 env_ok" "[]" "[]" 0]
  from t have "read_input env_ok (replicate 1500 CHR ''a'' @ [newline]) (proc0 env_ok)
      = Inr ((fragments (replicate 1500 CHR ''a''),
              int (length (fragments (replicate 1500 CHR ''a'')))), proc0 env_ok)"
    by blast
  then have one: "read_input env_ok (replicate 1500 CHR ''a'' @ [newline]) (proc0 env_ok)
       = Inr (([replicate 1023 CHR ''a'', replicate 477 CHR ''a''], 2), proc0 env_ok)"
    by (simp add: f)
  from t have "read_input env_ok
        (input_lines [''ls''] @ replicate 1500 CHR ''a'' @ newline # input_lines [''wc''])
        (proc0 env_ok)
      = Inr ((concat (map fragments [''ls'']) @ fragments (replicate 1500 CHR ''a'')
                @ concat (map fragments [''wc'']),
              int (length (concat (map fragments [''ls'']))
                   + length (fragments (replicate 1500 CHR ''a''))
                   + length (concat (map fragments [''wc''])))), proc0 env_ok)"
    by blast
  then have three: "read_input env_ok
         (''ls'' @ [newline] @ replicate 1500 CHR ''a'' @ [newline] @ ''wc'' @ [newline])
         (proc0 env_ok)
       = Inr (([''ls'', replicate 1023 CHR ''a'', replicate 477 CHR ''a'', ''wc''], 4),
              proc0 env_ok)"
    by (simp add: f g input_lines_def)
  from a b c d one three show ?thesis by blast
qed

text \<open>
  C10. The test for the trailing newline reads \<^verbatim>\<open>line[strlen(line) - 1]\<close>. For a
  buffer filled by \<^verbatim>\<open>fgets\<close> this index lies inside the buffer exactly when the
  stored string is not empty: then it is \<open>strlen line - 1\<close>, otherwise the subtraction
  wraps around to the largest \<^verbatim>\<open>size_t\<close>. An input line that begins with a NUL byte
  gives the empty string: the access is out of bounds and the behaviour of
  \<^verbatim>\<open>read_input\<close> is undefined.
\<close>

theorem strip_access_in_bounds_iff_nonempty:
  "(fgets MAX_LINE_LENGTH fp = Some (line, fp') \<longrightarrow>
      (in_bounds (strip_index line) \<longleftrightarrow> strlen line \<noteq> 0)
      \<and> strip_index line
          = (if strlen line = 0 then SIZE_MODULUS - 1 else int (strlen line) - 1))
   \<and> (\<exists>line0 fp0. fgets MAX_LINE_LENGTH (NUL # rest) = Some (line0, fp0)
          \<and> strlen line0 = 0 \<and> \<not> in_bounds (strip_index line0)
          \<and> read_input e (NUL # rest) s = Inl Undefined)"
proof -
  have "strip_index line
      = (if strlen line = 0 then SIZE_MODULUS - 1 else int (strlen line) - 1)"
    if f: "fgets MAX_LINE_LENGTH fp = Some (line, fp')"
  proof -
    from fgets_line_shape [OF f] obtain cs where "line = cs @ [NUL]" "length cs \<le> 1023"
      by blast
    then have "strlen line \<le> 1023"
      using strlen_le [of cs] by simp
    then show ?thesis by (rule strip_index_cases)
  qed
  then show ?thesis
    using in_bounds_iff [of fp line fp'] read_NUL_line [of rest e "[]" 0 s]
    by (simp add: read_input_def)
qed

theorem strip_access_in_bounds_iff_nonempty_witness:
  "fgets MAX_LINE_LENGTH (''ls'' @ [newline]) = Some (''ls'' @ [newline, NUL], [])
   \<and> in_bounds (strip_index (''ls'' @ [newline, NUL]))
   \<and> strlen (''ls'' @ [newline, NUL]) \<noteq> 0
   \<and> strip_index (''ls'' @ [newline, NUL]) = 2
   \<and> read_input env_ok [NUL, newline] (proc0 env_ok) = Inl Undefined"
proof -
  have f: "fgets MAX_LINE_LENGTH (''ls'' @ newline # []) = Some (''ls'' @ [newline, NUL], [])"
    by (rule fgets_line) (simp_all add: newline_def)
  have n: "strlen (''ls'' @ [newline, NUL]) = 3"
    by (simp add: strlen_def NUL_def newline_def)
  show ?thesis
    using strip_access_in_bounds_iff_nonempty
      [of "''ls'' @ [newline]" "''ls'' @ [newline, NUL]" "[]" "[newline]" env_ok "proc0 env_ok"]
      f n
    by auto
qed

subsection \<open>Creating the pipes\<close>

lemma upt_add_Suc: "[k..<k + Suc m] = k # [Suc k..<Suc k + m]"
  by (subst upt_rec) simp

lemma bank_Suc: "bank e k (Suc m) = the (pipe_res e k) # bank e (Suc k) m"
  unfolding bank_def upt_add_Suc by simp

lemma pipe_calls_Suc: "pipe_calls e k (Suc m) = SysPipe (pipe_res e k) # pipe_calls e (Suc k) m"
  unfolding pipe_calls_def upt_add_Suc by simp

lemma create_pipes_loop_ok:
  assumes "nat (N - 1 - i) = m"
    and "\<forall>j. n_pipe s \<le> j \<and> j < n_pipe s + m \<longrightarrow> pipe_res e j \<noteq> None"
  shows "\<exists>s'. create_pipes_loop e N pa i s = Inr (pa @ bank e (n_pipe s) m, s')
      \<and> log s' = log s @ pipe_calls e (n_pipe s) m
      \<and> stderr s' = stderr s \<and> n_fork s' = n_fork s \<and> n_pipe s' = n_pipe s + m
      \<and> fds s' = install e (n_pipe s) m (fds s)"
  using assms
proof (induction m arbitrary: i pa s)
  case 0
  then show ?case
    by (subst create_pipes_loop.simps) (simp add: bank_def pipe_calls_def)
next
  case (Suc m)
  from Suc.prems(1) have lt: "i < N - 1" and m: "nat (N - 1 - (i + 1)) = m"
    by auto
  from Suc.prems(2) obtain r w where p: "pipe_res e (n_pipe s) = Some (r, w)"
    by (cases "pipe_res e (n_pipe s)") auto
  define s1 where "s1 = snd (sys_pipe e s)"
  have sp: "sys_pipe e s = (Some (r, w), s1)"
    by (simp add: s1_def sys_pipe_def p)
  have s1: "n_pipe s1 = Suc (n_pipe s)" "log s1 = log s @ [SysPipe (pipe_res e (n_pipe s))]"
    "stderr s1 = stderr s" "n_fork s1 = n_fork s"
    "fds s1 = (fds s)(r \<mapsto> ReadEnd (n_pipe s), w \<mapsto> WriteEnd (n_pipe s))"
    by (simp_all add: s1_def sys_pipe_def p record_call_def)
  have "\<forall>j. n_pipe s1 \<le> j \<and> j < n_pipe s1 + m \<longrightarrow> pipe_res e j \<noteq> None"
    using Suc.prems(2) s1(1) by simp
  from Suc.IH [OF m this, of "pa @ [(r, w)]"] obtain s'
    where s': "create_pipes_loop e N (pa @ [(r, w)]) (i + 1) s1
                 = Inr ((pa @ [(r, w)]) @ bank e (n_pipe s1) m, s')"
      "log s' = log s1 @ pipe_calls e (n_pipe s1) m"
      "stderr s' = stderr s1" "n_fork s' = n_fork s1" "n_pipe s' = n_pipe s1 + m"
      "fds s' = install e (n_pipe s1) m (fds s1)"
    by blast
  have "create_pipes_loop e N pa i s = create_pipes_loop e N (pa @ [(r, w)]) (i + 1) s1"
    using lt sp by (subst create_pipes_loop.simps) simp
  then show ?case
    using s' s1 p by (simp add: bank_Suc pipe_calls_Suc)
qed

lemma create_pipes_loop_fail:
  assumes "nat (N - 1 - i) = m"
    and "\<exists>j. n_pipe s \<le> j \<and> j < n_pipe s + m \<and> pipe_res e j = None"
  shows "\<exists>s' l. create_pipes_loop e N pa i s = Inl (Exit EXIT_FAILURE s')
      \<and> log s' = log s @ l \<and> (\<forall>c \<in> set l. is_pipe c)
      \<and> stderr s' = stderr s @ [Perror ''Pipe failed'']"
  using assms
proof (induction m arbitrary: i pa s)
  case 0
  then show ?case by auto
next
  case (Suc m)
  from Suc.prems(1) have lt: "i < N - 1" and m: "nat (N - 1 - (i + 1)) = m"
    by auto
  show ?case
  proof (cases "pipe_res e (n_pipe s)")
    case None
    then have "create_pipes_loop e N pa i s
        = Inl (Exit EXIT_FAILURE (perror ''Pipe failed''
              (record_call (SysPipe None) (s\<lparr>n_pipe := Suc (n_pipe s)\<rparr>))))"
      using lt by (subst create_pipes_loop.simps) (simp add: sys_pipe_def)
    then show ?thesis
      by (simp add: perror_def record_call_def)
  next
    case (Some p)
    obtain r w where rw: "p = (r, w)" by (cases p)
    define s1 where "s1 = snd (sys_pipe e s)"
    have sp: "sys_pipe e s = (Some (r, w), s1)"
      by (simp add: s1_def sys_pipe_def Some rw)
    have s1: "n_pipe s1 = Suc (n_pipe s)" "log s1 = log s @ [SysPipe (Some (r, w))]"
      "stderr s1 = stderr s"
      by (simp_all add: s1_def sys_pipe_def Some rw record_call_def)
    from Suc.prems(2) obtain j where j: "n_pipe s \<le> j" "j < n_pipe s + Suc m" "pipe_res e j = None"
      by blast
    with Some have "j \<noteq> n_pipe s" by auto
    with j have "\<exists>j. n_pipe s1 \<le> j \<and> j < n_pipe s1 + m \<and> pipe_res e j = None"
      using s1(1) by (intro exI [of _ j]) simp
    from Suc.IH [OF m this, of "pa @ [(r, w)]"] obtain s' l
      where s': "create_pipes_loop e N (pa @ [(r, w)]) (i + 1) s1 = Inl (Exit EXIT_FAILURE s')"
        "log s' = log s1 @ l" "\<forall>c \<in> set l. is_pipe c"
        "stderr s' = stderr s1 @ [Perror ''Pipe failed'']"
      by blast
    have "create_pipes_loop e N pa i s = create_pipes_loop e N (pa @ [(r, w)]) (i + 1) s1"
      using lt sp by (subst create_pipes_loop.simps) simp
    then show ?thesis
      using s' s1 by (intro exI [of _ s'] exI [of _ "SysPipe (Some (r, w)) # l"]) simp
  qed
qed

subsection \<open>Launching, closing and waiting in the parent\<close>

lemma sys_close_fds: "fds (snd (sys_close e fd s)) = (fds s)(fd := None)"
  by (cases "fds s fd") (auto simp: sys_close_def record_call_def)

lemma sys_close_rest:
  "stderr (snd (sys_close e fd s)) = stderr s"
  "n_pipe (snd (sys_close e fd s)) = n_pipe s"
  "n_fork (snd (sys_close e fd s)) = n_fork s"
  "log (snd (sys_close e fd s)) = log s @ [SysClose fd (fst (sys_close e fd s))]"
  by (cases "fds s fd"; simp add: sys_close_def record_call_def)+

lemma close_pipes_loop_effect:
  assumes "nat (N - 1 - i) = m" and "0 \<le> i" and "length pa = nat (N - 1)"
  shows "fds (close_pipes_loop e N pa i s)
           = (\<lambda>fd. if fd \<in> set (fd_list (drop (nat i) pa)) then None else fds s fd)
       \<and> stderr (close_pipes_loop e N pa i s) = stderr s
       \<and> n_pipe (close_pipes_loop e N pa i s) = n_pipe s
       \<and> n_fork (close_pipes_loop e N pa i s) = n_fork s
       \<and> (\<exists>l. log (close_pipes_loop e N pa i s) = log s @ l \<and> list_all is_close l
              \<and> length l = 2 * m)"
  using assms
proof (induction m arbitrary: i s)
  case 0
  then have "drop (nat i) pa = []" by auto
  with 0 show ?case
    by (subst (1 2 3 4 5) close_pipes_loop.simps) (simp add: fd_list_def)
next
  case (Suc m)
  from Suc.prems have lt: "i < N - 1" and m: "nat (N - 1 - (i + 1)) = m" and i: "0 \<le> i + 1"
    by auto
  define s1 where "s1 = snd (sys_close e (snd (pa ! nat i)) (snd (sys_close e (fst (pa ! nat i)) s)))"
  have step: "close_pipes_loop e N pa i s = close_pipes_loop e N pa (i + 1) s1"
    using lt by (subst close_pipes_loop.simps) (simp add: s1_def)
  have s1: "fds s1 = (fds s)(fst (pa ! nat i) := None, snd (pa ! nat i) := None)"
    "stderr s1 = stderr s" "n_pipe s1 = n_pipe s" "n_fork s1 = n_fork s"
    "\<exists>a b. log s1 = log s @ [SysClose (fst (pa ! nat i)) a, SysClose (snd (pa ! nat i)) b]"
    by (simp_all add: s1_def sys_close_fds sys_close_rest)
  have "nat i < length pa" using lt Suc.prems by auto
  then have dr: "drop (nat i) pa = pa ! nat i # drop (nat (i + 1)) pa"
    using Suc.prems(2) by (simp add: Cons_nth_drop_Suc nat_add_distrib)
  from Suc.IH [OF m i Suc.prems(3), of s1] obtain l
    where ih: "fds (close_pipes_loop e N pa (i + 1) s1)
           = (\<lambda>fd. if fd \<in> set (fd_list (drop (nat (i + 1)) pa)) then None else fds s1 fd)"
      "stderr (close_pipes_loop e N pa (i + 1) s1) = stderr s1"
      "n_pipe (close_pipes_loop e N pa (i + 1) s1) = n_pipe s1"
      "n_fork (close_pipes_loop e N pa (i + 1) s1) = n_fork s1"
      "log (close_pipes_loop e N pa (i + 1) s1) = log s1 @ l" "list_all is_close l"
      "length l = 2 * m"
    by blast
  from s1(5) obtain a b
    where ab: "log s1 = log s @ [SysClose (fst (pa ! nat i)) a, SysClose (snd (pa ! nat i)) b]"
    by blast
  have "fds (close_pipes_loop e N pa i s)
      = (\<lambda>fd. if fd \<in> set (fd_list (drop (nat i) pa)) then None else fds s fd)"
    unfolding step ih(1) s1(1) dr by (auto simp: fd_list_def)
  moreover have "\<exists>l. log (close_pipes_loop e N pa i s) = log s @ l \<and> list_all is_close l
      \<and> length l = 2 * Suc m"
    unfolding step ih(5) ab using ih(6) ih(7)
    by (intro exI [of _ "[SysClose (fst (pa ! nat i)) a, SysClose (snd (pa ! nat i)) b] @ l"])
       simp
  ultimately show ?case
    unfolding step using ih(2-4) s1(2-4) by simp
qed

lemma fork_calls_Suc: "fork_calls e k (Suc m) = SysFork (fork_res e k) # fork_calls e (Suc k) m"
  unfolding fork_calls_def upt_add_Suc by simp

lemma pids_Suc: "pids e k (Suc m) = fork_res e k # pids e (Suc k) m"
  unfolding pids_def upt_add_Suc by simp

lemma forks_ok_Suc:
  "forks_ok e k (Suc m) = (fork_res e k \<noteq> - 1 \<and> fork_res e k \<noteq> 0 \<and> forks_ok e (Suc k) m)"
  unfolding forks_ok_def upt_add_Suc by simp

lemma exec_command_parent:
  assumes "fork_res e (n_fork s) \<noteq> - 1" and "fork_res e (n_fork s) \<noteq> 0"
  shows "exec_command e command N pa i s
       = Inr (fork_res e (n_fork s),
              record_call (SysFork (fork_res e (n_fork s))) (s\<lparr>n_fork := Suc (n_fork s)\<rparr>))"
  using assms by (simp add: exec_command_def sys_fork_def)

lemma exec_loop_unroll:
  assumes "forks_ok e (n_fork s) m" and "i + int m \<le> N"
  shows "\<exists>s'. exec_loop e cmds N pa i ps s
             = exec_loop e cmds N pa (i + int m) (ps @ pids e (n_fork s) m) s'
      \<and> fds s' = fds s \<and> stderr s' = stderr s \<and> n_pipe s' = n_pipe s
      \<and> n_fork s' = n_fork s + m \<and> log s' = log s @ fork_calls e (n_fork s) m"
  using assms
proof (induction m arbitrary: i ps s)
  case 0
  show ?case by (intro exI [of _ s]) (simp add: pids_def fork_calls_def)
next
  case (Suc m)
  from Suc.prems(1) have f: "fork_res e (n_fork s) \<noteq> - 1" "fork_res e (n_fork s) \<noteq> 0"
    and rest: "forks_ok e (Suc (n_fork s)) m"
    by (simp_all add: forks_ok_Suc)
  define s1 where "s1 = record_call (SysFork (fork_res e (n_fork s))) (s\<lparr>n_fork := Suc (n_fork s)\<rparr>)"
  have s1: "fds s1 = fds s" "stderr s1 = stderr s" "n_pipe s1 = n_pipe s"
    "n_fork s1 = Suc (n_fork s)" "log s1 = log s @ [SysFork (fork_res e (n_fork s))]"
    by (simp_all add: s1_def record_call_def)
  from Suc.prems(2) have lt: "i < N" and le: "(i + 1) + int m \<le> N"
    by auto
  have step: "exec_loop e cmds N pa i ps s
      = exec_loop e cmds N pa (i + 1) (ps @ [fork_res e (n_fork s)]) s1"
    using lt exec_command_parent [OF f] by (subst exec_loop.simps) (simp add: s1_def)
  from rest have "forks_ok e (n_fork s1) m" by (simp add: s1(4))
  from Suc.IH [OF this le, of "ps @ [fork_res e (n_fork s)]"] obtain s'
    where "exec_loop e cmds N pa (i + 1) (ps @ [fork_res e (n_fork s)]) s1
             = exec_loop e cmds N pa (i + 1 + int m)
                 ((ps @ [fork_res e (n_fork s)]) @ pids e (n_fork s1) m) s'"
      "fds s' = fds s1" "stderr s' = stderr s1" "n_pipe s' = n_pipe s1"
      "n_fork s' = n_fork s1 + m" "log s' = log s1 @ fork_calls e (n_fork s1) m"
    by blast
  then show ?case
    unfolding step s1 by (intro exI [of _ s']) (simp add: pids_Suc fork_calls_Suc add.commute add.left_commute)
qed

lemma exec_loop_parent:
  assumes "forks_ok e (n_fork s) m" and "int m = N" 
  shows "\<exists>s'. exec_loop e cmds N pa 0 [] s = Inr (pids e (n_fork s) m, s')
      \<and> fds s' = fds s \<and> stderr s' = stderr s \<and> n_pipe s' = n_pipe s
      \<and> n_fork s' = n_fork s + m \<and> log s' = log s @ fork_calls e (n_fork s) m"
proof -
  from exec_loop_unroll [OF assms(1), of 0 N cmds pa "[]"] assms(2) obtain s'
    where s': "exec_loop e cmds N pa 0 [] s = exec_loop e cmds N pa N (pids e (n_fork s) m) s'"
      "fds s' = fds s" "stderr s' = stderr s" "n_pipe s' = n_pipe s"
      "n_fork s' = n_fork s + m" "log s' = log s @ fork_calls e (n_fork s) m"
    by auto
  have "exec_loop e cmds N pa N (pids e (n_fork s) m) s' = Inr (pids e (n_fork s) m, s')"
    by (subst exec_loop.simps) simp
  with s' show ?thesis by auto
qed

lemma exec_loop_child:
  assumes "forks_ok e (n_fork s) m" and "int m < N" and "fork_res e (n_fork s + m) = 0"
  shows "\<exists>s' out. exec_loop e cmds N pa 0 [] s = Inl out
      \<and> exec_command e (cmds ! m) N pa (int m) s' = Inl out
      \<and> fds s' = fds s \<and> stderr s' = stderr s \<and> n_pipe s' = n_pipe s
      \<and> n_fork s' = n_fork s + m \<and> log s' = log s @ fork_calls e (n_fork s) m"
proof -
  from assms(2) have "0 + int m \<le> N" by simp
  from exec_loop_unroll [OF assms(1) this, of cmds pa "[]"] obtain s'
    where s': "exec_loop e cmds N pa 0 [] s = exec_loop e cmds N pa (int m) (pids e (n_fork s) m) s'"
      "fds s' = fds s" "stderr s' = stderr s" "n_pipe s' = n_pipe s"
      "n_fork s' = n_fork s + m" "log s' = log s @ fork_calls e (n_fork s) m"
    by auto
  have "\<exists>out. exec_command e (cmds ! m) N pa (int m) s' = Inl out"
    using assms(3) s'(5)
    by (simp add: exec_command_def sys_fork_def split: sum.splits)
  then obtain out where out: "exec_command e (cmds ! m) N pa (int m) s' = Inl out"
    by blast
  have "exec_loop e cmds N pa (int m) (pids e (n_fork s) m) s' = Inl out"
    using assms(2) out by (subst exec_loop.simps) simp
  with s' out show ?thesis by auto
qed

lemma wstatus_zero_iff: "valid_end t \<Longrightarrow> (wstatus t = 0) = exited_ok t"
  by (cases t) auto

lemma wait_loop_reaped:
  assumes "ps = pre @ rest" and "i = int (length pre)" and "N = int (length ps)"
    and "list_all (reaped e) rest"
  shows "\<exists>s'. wait_loop e ps N i st s
             = (if list_all (stage_ok e) rest then Inr s'
                else Inl (Exit EXIT_FAILURE (perror ''Child process failed'' s')))
      \<and> log s' = log s @ wait_calls e (waited e rest)
      \<and> fds s' = fds s \<and> stderr s' = stderr s \<and> n_pipe s' = n_pipe s \<and> n_fork s' = n_fork s"
  using assms
proof (induction rest arbitrary: pre i st s)
  case Nil
  then have "wait_loop e ps N i st s = Inr s"
    by (subst wait_loop.simps) simp
  then show ?case
    by (intro exI [of _ s]) (simp add: wait_calls_def waited_def)
next
  case (Cons p rest)
  from Cons.prems have lt: "i < N" and p: "ps ! nat i = p"
    by (simp_all add: nth_append)
  from Cons.prems(4) obtain t where t: "wait_res e p = Reaped t" "valid_end t"
    by (auto simp: reaped_def split: wait_result.splits)
  define s1 where "s1 = record_call (SysWaitpid p (Reaped t)) s"
  have w: "sys_waitpid e p st s = (Some (p, wstatus t), s1)"
    by (simp add: sys_waitpid_def t s1_def)
  have s1: "log s1 = log s @ [SysWaitpid p (wait_res e p)]" "fds s1 = fds s"
    "stderr s1 = stderr s" "n_pipe s1 = n_pipe s" "n_fork s1 = n_fork s"
    by (simp_all add: s1_def record_call_def t)
  have ok: "stage_ok e p = (wstatus t = 0)"
    using wstatus_zero_iff [OF t(2)] by (simp add: stage_ok_def t)
  show ?case
  proof (cases "stage_ok e p")
    case False
    then have "wait_loop e ps N i st s
        = Inl (Exit EXIT_FAILURE (perror ''Child process failed'' s1))"
      using lt p w ok by (subst wait_loop.simps) simp
    then show ?thesis
      using False s1 by (intro exI [of _ s1]) (simp add: wait_calls_def waited_def)
  next
    case True
    then have step: "wait_loop e ps N i st s = wait_loop e ps N (i + 1) 0 s1"
      using lt p w ok by (subst wait_loop.simps) simp
    have "ps = (pre @ [p]) @ rest" "i + 1 = int (length (pre @ [p]))"
      using Cons.prems by simp_all
    moreover have "list_all (reaped e) rest" using Cons.prems(4) by simp
    ultimately obtain s'
      where "wait_loop e ps N (i + 1) 0 s1
             = (if list_all (stage_ok e) rest then Inr s'
                else Inl (Exit EXIT_FAILURE (perror ''Child process failed'' s')))"
        "log s' = log s1 @ wait_calls e (waited e rest)"
        "fds s' = fds s1" "stderr s' = stderr s1" "n_pipe s' = n_pipe s1" "n_fork s' = n_fork s1"
      using Cons.IH [of "pre @ [p]" "i + 1" 0 s1] Cons.prems(3) by blast
    then show ?thesis
      unfolding step using True s1
      by (intro exI [of _ s']) (simp add: wait_calls_def waited_def)
  qed
qed

lemma filter_wait_calls:
  "filter is_wait (pipe_calls e k m) = []" "filter is_wait (fork_calls e k m) = []"
  "filter is_wait (wait_calls e ps) = wait_calls e ps"
  by (simp_all add: pipe_calls_def fork_calls_def wait_calls_def)

lemma filter_wait_closes: "list_all is_close l \<Longrightarrow> filter is_wait l = []"
proof (induction l)
  case Nil
  show ?case by simp
next
  case (Cons c l)
  then show ?case by (cases c) simp_all
qed

lemma parent_run:
  assumes "N = int n" and "pipes_ok e (n - 1)" and "forks_ok e 0 n"
    and "list_all (reaped e) (pids e 0 n)" and "n_pipe s = 0" and "n_fork s = 0"
  shows "\<exists>s' cl. main_pipeline e cmds N s
             = (if list_all (stage_ok e) (pids e 0 n) then Exit EXIT_SUCCESS s'
                else Exit EXIT_FAILURE (perror ''Child process failed'' s'))
      \<and> stderr s' = stderr s
      \<and> log s' = log s @ pipe_calls e 0 (n - 1) @ fork_calls e 0 n @ cl
                   @ wait_calls e (waited e (pids e 0 n))
      \<and> list_all is_close cl \<and> length cl = 2 * (n - 1)"
proof -
  have m: "nat (N - 1 - 0) = n - 1" using assms(1) by simp
  have "\<forall>j. n_pipe s \<le> j \<and> j < n_pipe s + (n - 1) \<longrightarrow> pipe_res e j \<noteq> None"
    using assms(2) assms(5) by (simp add: pipes_ok_def list_all_iff)
  from create_pipes_loop_ok [OF m this, of "[]"] obtain s1
    where s1: "create_pipes e N s = Inr (bank e 0 (n - 1), s1)"
      "log s1 = log s @ pipe_calls e 0 (n - 1)" "stderr s1 = stderr s" "n_fork s1 = 0"
    using assms(5) assms(6) by (auto simp: create_pipes_def)
  have "forks_ok e (n_fork s1) n" using assms(3) s1(4) by simp
  from exec_loop_parent [OF this, of N cmds "bank e 0 (n - 1)"] obtain s2
    where s2: "exec_loop e cmds N (bank e 0 (n - 1)) 0 [] s1 = Inr (pids e 0 n, s2)"
      "stderr s2 = stderr s1" "log s2 = log s1 @ fork_calls e 0 n"
    using assms(1) s1(4) by auto
  define s3 where "s3 = close_pipes e N (bank e 0 (n - 1)) s2"
  have "length (bank e 0 (n - 1)) = nat (N - 1)"
    using assms(1) by (simp add: bank_def)
  from close_pipes_loop_effect [OF m _ this, of e s2] obtain cl
    where s3: "stderr s3 = stderr s2" "log s3 = log s2 @ cl" "list_all is_close cl"
      "length cl = 2 * (n - 1)"
    by (auto simp: s3_def close_pipes_def)
  have "N = int (length (pids e 0 n))" using assms(1) by (simp add: pids_def)
  from wait_loop_reaped [OF _ _ this assms(4), of "[]" 0 "status0 e" s3] obtain s4
    where s4: "wait_for_processes e (pids e 0 n) N s3
             = (if list_all (stage_ok e) (pids e 0 n) then Inr s4
                else Inl (Exit EXIT_FAILURE (perror ''Child process failed'' s4)))"
      "log s4 = log s3 @ wait_calls e (waited e (pids e 0 n))" "stderr s4 = stderr s3"
    by (auto simp: wait_for_processes_def)
  have "main_pipeline e cmds N s
      = (if list_all (stage_ok e) (pids e 0 n) then Exit EXIT_SUCCESS s4
         else Exit EXIT_FAILURE (perror ''Child process failed'' s4))"
    using s1(1) s2(1) s4(1) by (simp add: main_pipeline_def s3_def)
  then show ?thesis
    using s1 s2 s3 s4 by (intro exI [of _ s4] exI [of _ cl]) simp
qed

subsection \<open>The Reaper\<close>

text \<open>
  C4. In the parent, when the pipes and the processes were created and every
  \<^verbatim>\<open>waitpid\<close> returns the status of a child that ended: the calls of \<^verbatim>\<open>waitpid\<close>
  are made on the recorded process identifiers in launch order and stop with the
  first whose status is failing; a status is failing (not 0) if and only if the child
  did not exit normally with status 0; the program exits with 0 if and only if every
  stage exited normally with status 0, and with \<^verbatim>\<open>EXIT_FAILURE\<close>, after reporting
  \<^verbatim>\<open>Child process failed\<close>, otherwise.
\<close>

theorem reaper_first_failure_decides:
  assumes "pipes_ok e (length cmds - 1)" and "forks_ok e 0 (length cmds)"
    and "list_all (reaped e) (pids e 0 (length cmds))"
  shows "(\<exists>c s'. main_pipeline e cmds (int (length cmds)) (proc0 e) = Exit c s'
           \<and> filter is_wait (log s') = wait_calls e (waited e (pids e 0 (length cmds)))
           \<and> (c = 0 \<longleftrightarrow> list_all (stage_ok e) (pids e 0 (length cmds)))
           \<and> (c \<noteq> 0 \<longrightarrow> c = EXIT_FAILURE \<and> stderr s' = [Perror ''Child process failed''])
           \<and> (c = 0 \<longrightarrow> stderr s' = []))
       \<and> (\<forall>t. valid_end t \<longrightarrow> (wstatus t \<noteq> 0) = (\<not> exited_ok t))"
proof -
  have "n_pipe (proc0 e) = 0" "n_fork (proc0 e) = 0" "stderr (proc0 e) = []" "log (proc0 e) = []"
    by (simp_all add: proc0_def)
  with parent_run [OF refl assms, of "proc0 e" cmds] obtain s' cl
    where r: "main_pipeline e cmds (int (length cmds)) (proc0 e)
             = (if list_all (stage_ok e) (pids e 0 (length cmds)) then Exit EXIT_SUCCESS s'
                else Exit EXIT_FAILURE (perror ''Child process failed'' s'))"
      "stderr s' = []"
      "log s' = pipe_calls e 0 (length cmds - 1) @ fork_calls e 0 (length cmds) @ cl
                   @ wait_calls e (waited e (pids e 0 (length cmds)))"
      "list_all is_close cl"
    by auto
  have w: "filter is_wait (log s') = wait_calls e (waited e (pids e 0 (length cmds)))"
    unfolding r(3) using filter_wait_closes [OF r(4)] by (simp add: filter_wait_calls)
  have "\<exists>c s'. main_pipeline e cmds (int (length cmds)) (proc0 e) = Exit c s'
           \<and> filter is_wait (log s') = wait_calls e (waited e (pids e 0 (length cmds)))
           \<and> (c = 0 \<longleftrightarrow> list_all (stage_ok e) (pids e 0 (length cmds)))
           \<and> (c \<noteq> 0 \<longrightarrow> c = EXIT_FAILURE \<and> stderr s' = [Perror ''Child process failed''])
           \<and> (c = 0 \<longrightarrow> stderr s' = [])"
  proof (cases "list_all (stage_ok e) (pids e 0 (length cmds))")
    case True
    with r w show ?thesis
      by (intro exI [of _ EXIT_SUCCESS] exI [of _ s']) (simp add: EXIT_SUCCESS_def)
  next
    case False
    with r w show ?thesis
      by (intro exI [of _ EXIT_FAILURE] exI [of _ "perror ''Child process failed'' s'"])
         (simp add: EXIT_FAILURE_def perror_def)
  qed
  then show ?thesis
    using wstatus_zero_iff by blast
qed

lemma upt_3: "[0..<3] = [0, 1, 2]" "[0..<2] = [0, 1]" "[0..<Suc 0] = [0]"
  by (simp_all add: upt_rec)

theorem reaper_first_failure_decides_witness:
  "pipes_ok env_second_fails (length [''true'', ''false'', ''true''] - 1)
   \<and> forks_ok env_second_fails 0 (length [''true'', ''false'', ''true''])
   \<and> list_all (reaped env_second_fails) (pids env_second_fails 0 (length [''true'', ''false'', ''true'']))
   \<and> (\<exists>c s'. main_pipeline env_second_fails [''true'', ''false'', ''true''] 3 (proc0 env_second_fails)
                = Exit c s'
         \<and> filter is_wait (log s')
             = [SysWaitpid 100 (Reaped (Exited 0)), SysWaitpid 101 (Reaped (Exited 1))]
         \<and> c = 1 \<and> stderr s' = [Perror ''Child process failed''])"
proof -
  let ?cmds = "[''true'', ''false'', ''true'']"
  have p: "pids env_second_fails 0 (length ?cmds) = [100, 101, 102]"
    by (simp add: pids_def upt_3 env_second_fails_def env_ok_def)
  have a: "pipes_ok env_second_fails (length ?cmds - 1)"
    by (simp add: pipes_ok_def upt_3 env_second_fails_def env_ok_def)
  have b: "forks_ok env_second_fails 0 (length ?cmds)"
    by (simp add: forks_ok_def upt_3 env_second_fails_def env_ok_def)
  have c: "list_all (reaped env_second_fails) (pids env_second_fails 0 (length ?cmds))"
    unfolding p by (simp add: reaped_def env_second_fails_def)
  have ok: "stage_ok env_second_fails 100" "\<not> stage_ok env_second_fails 101"
    by (simp_all add: stage_ok_def env_second_fails_def)
  have w: "wait_calls env_second_fails (waited env_second_fails [100, 101, 102])
      = [SysWaitpid 100 (Reaped (Exited 0)), SysWaitpid 101 (Reaped (Exited 1))]"
    by (simp add: waited_def ok wait_calls_def) (simp add: env_second_fails_def)
  show ?thesis
    using reaper_first_failure_decides [OF a b c] a b c ok
    unfolding p w by (auto simp: EXIT_FAILURE_def)
qed

subsection \<open>No pipe is created after \<^verbatim>\<open>create_pipes\<close>\<close>

lemma no_more_pipes_refl: "no_more_pipes s (log s)"
  by (simp add: no_more_pipes_def)

lemma no_more_pipes_trans:
  "no_more_pipes s (log s') \<Longrightarrow> no_more_pipes s' l \<Longrightarrow> no_more_pipes s l"
  by (auto simp: no_more_pipes_def)

lemma no_more_pipes_call: "\<not> is_pipe c \<Longrightarrow> no_more_pipes s (log (record_call c s))"
  by (simp add: no_more_pipes_def record_call_def)

lemma no_more_pipes_perror: "no_more_pipes s l \<Longrightarrow> no_more_pipes s' l' \<Longrightarrow> log s' = l
    \<Longrightarrow> no_more_pipes s l'"
  by (auto simp: no_more_pipes_def)

lemma sys_close_no_pipe: "no_more_pipes s (log (snd (sys_close e fd s)))"
  by (simp add: no_more_pipes_def sys_close_rest)

lemma sys_dup2_no_pipe: "no_more_pipes s (log (snd (sys_dup2 oldfd newfd s)))"
  by (cases "fds s oldfd") (simp_all add: no_more_pipes_def sys_dup2_def record_call_def)

lemma close_pipes_loop_no_pipe: "no_more_pipes s (log (close_pipes_loop e N pa i s))"
proof (induction e N pa i s rule: close_pipes_loop.induct)
  case (1 e N pa i s)
  show ?case
  proof (cases "i < N - 1")
    case False
    then show ?thesis
      by (subst close_pipes_loop.simps) (simp add: no_more_pipes_refl)
  next
    case True
    let ?s1 = "snd (sys_close e (fst (pa ! nat i)) s)"
    let ?s2 = "snd (sys_close e (snd (pa ! nat i)) ?s1)"
    have "no_more_pipes s (log ?s2)"
      by (rule no_more_pipes_trans [OF sys_close_no_pipe sys_close_no_pipe])
    moreover have "no_more_pipes ?s2 (log (close_pipes_loop e N pa (i + 1) ?s2))"
      using True by (rule "1.IH")
    moreover have "close_pipes_loop e N pa i s = close_pipes_loop e N pa (i + 1) ?s2"
      using True by (subst close_pipes_loop.simps) simp
    ultimately show ?thesis
      by (simp add: no_more_pipes_trans)
  qed
qed

lemma execute_no_pipe: "no_more_pipes s (out_log (execute e command s))"
  by (simp add: execute_def sys_execlp_def no_more_pipes_def record_call_def perror_def)

lemma redirect_stdin_no_pipe:
  "case redirect_stdin e pa i s of Inl out \<Rightarrow> no_more_pipes s (out_log out)
     | Inr s' \<Rightarrow> no_more_pipes s (log s')"
proof (cases "i > 0")
  case False
  then show ?thesis by (simp add: redirect_stdin_def no_more_pipes_refl)
next
  case True
  let ?d = "sys_dup2 (fst (pa ! nat (i - 1))) STDIN_FILENO s"
  have d: "no_more_pipes s (log (snd ?d))" by (rule sys_dup2_no_pipe)
  show ?thesis
  proof (cases "fst ?d = - 1")
    case True
    with \<open>i > 0\<close> d show ?thesis
      by (simp add: redirect_stdin_def split_beta perror_def)
  next
    case False
    with \<open>i > 0\<close> show ?thesis
      using no_more_pipes_trans [OF d sys_close_no_pipe]
      by (simp add: redirect_stdin_def split_beta)
  qed
qed

lemma redirect_stdout_no_pipe:
  "case redirect_stdout e N pa i s of Inl out \<Rightarrow> no_more_pipes s (out_log out)
     | Inr s' \<Rightarrow> no_more_pipes s (log s')"
proof (cases "i < N - 1")
  case False
  then show ?thesis by (simp add: redirect_stdout_def no_more_pipes_refl)
next
  case True
  let ?d = "sys_dup2 (snd (pa ! nat i)) STDOUT_FILENO s"
  have d: "no_more_pipes s (log (snd ?d))" by (rule sys_dup2_no_pipe)
  show ?thesis
  proof (cases "fst ?d = - 1")
    case True
    with \<open>i < N - 1\<close> d show ?thesis
      by (simp add: redirect_stdout_def split_beta perror_def)
  next
    case False
    with \<open>i < N - 1\<close> show ?thesis
      using no_more_pipes_trans [OF d sys_close_no_pipe]
      by (simp add: redirect_stdout_def split_beta)
  qed
qed

lemma exec_command_no_pipe:
  "case exec_command e command N pa i s of Inl out \<Rightarrow> no_more_pipes s (out_log out)
     | Inr (pid, s') \<Rightarrow> no_more_pipes s (log s')"
proof -
  define s0 where "s0 = record_call (SysFork (fork_res e (n_fork s))) (s\<lparr>n_fork := Suc (n_fork s)\<rparr>)"
  have f: "sys_fork e s = (fork_res e (n_fork s), s0)"
    by (simp add: sys_fork_def s0_def)
  have a: "no_more_pipes s (log s0)"
    by (simp add: s0_def no_more_pipes_def record_call_def)
  consider (fail) "fork_res e (n_fork s) = - 1"
    | (child) "fork_res e (n_fork s) = 0"
    | (parent) "fork_res e (n_fork s) \<noteq> - 1" "fork_res e (n_fork s) \<noteq> 0"
    by blast
  then show ?thesis
  proof cases
    case fail
    with a show ?thesis by (simp add: exec_command_def f perror_def)
  next
    case parent
    with a show ?thesis by (simp add: exec_command_def f)
  next
    case child
    show ?thesis
    proof (cases "redirect_stdin e pa i s0")
      case (Inl out)
      with redirect_stdin_no_pipe [where e = e and pa = pa and i = i and s = s0] a child show ?thesis
        by (auto simp: exec_command_def f no_more_pipes_def)
    next
      case (Inr s1)
      with redirect_stdin_no_pipe [where e = e and pa = pa and i = i and s = s0] have b: "no_more_pipes s0 (log s1)" by simp
      show ?thesis
      proof (cases "redirect_stdout e N pa i s1")
        case (Inl out)
        with redirect_stdout_no_pipe [where e = e and N = N and pa = pa and i = i and s = s1] have "no_more_pipes s1 (out_log out)"
          by simp
        with a b have "no_more_pipes s (out_log out)"
          by (auto simp: no_more_pipes_def)
        with Inl Inr child show ?thesis by (simp add: exec_command_def f)
      next
        case (Inr s2)
        with redirect_stdout_no_pipe [where e = e and N = N and pa = pa and i = i and s = s1] have c: "no_more_pipes s1 (log s2)"
          by simp
        have "no_more_pipes s2 (log (close_pipes e N pa s2))"
          by (simp add: close_pipes_def close_pipes_loop_no_pipe)
        moreover have "no_more_pipes (close_pipes e N pa s2)
            (out_log (execute e command (close_pipes e N pa s2)))"
          by (rule execute_no_pipe)
        ultimately have "no_more_pipes s (out_log (execute e command (close_pipes e N pa s2)))"
          using a b c by (auto simp: no_more_pipes_def)
        with Inr \<open>redirect_stdin e pa i s0 = Inr s1\<close> child show ?thesis
          by (simp add: exec_command_def f)
      qed
    qed
  qed
qed

lemma exec_loop_no_pipe:
  "case exec_loop e cmds N pa i ps s of Inl out \<Rightarrow> no_more_pipes s (out_log out)
     | Inr (ps', s') \<Rightarrow> no_more_pipes s (log s')"
proof (induction e cmds N pa i ps s rule: exec_loop.induct)
  case (1 e cmds N pa i ps s)
  show ?case
  proof (cases "i < N")
    case False
    then show ?thesis
      by (subst exec_loop.simps) (simp add: no_more_pipes_refl)
  next
    case True
    show ?thesis
    proof (cases "exec_command e (cmds ! nat i) N pa i s")
      case (Inl out)
      with exec_command_no_pipe [where e = e and command = "cmds ! nat i" and N = N and pa = pa and i = i and s = s] True show ?thesis
        by (subst exec_loop.simps) simp
    next
      case (Inr r)
      obtain pid s' where r: "r = (pid, s')" by (cases r)
      with Inr exec_command_no_pipe [where e = e and command = "cmds ! nat i" and N = N and pa = pa and i = i and s = s]
      have a: "no_more_pipes s (log s')" by simp
      have b: "case exec_loop e cmds N pa (i + 1) (ps @ [pid]) s' of
            Inl out \<Rightarrow> no_more_pipes s' (out_log out)
          | Inr (ps', s'') \<Rightarrow> no_more_pipes s' (log s'')"
        using True Inr r by (intro "1.IH") auto
      have "exec_loop e cmds N pa i ps s = exec_loop e cmds N pa (i + 1) (ps @ [pid]) s'"
        using True Inr r by (subst exec_loop.simps) simp
      with a b show ?thesis
        by (auto simp: no_more_pipes_trans split: sum.splits)
    qed
  qed
qed

lemma wait_loop_no_pipe:
  "case wait_loop e ps N i st s of Inl out \<Rightarrow> no_more_pipes s (out_log out)
     | Inr s' \<Rightarrow> no_more_pipes s (log s')"
proof (induction e ps N i st s rule: wait_loop.induct)
  case (1 e ps N i st s)
  show ?case
  proof (cases "i < N")
    case False
    then show ?thesis
      by (subst wait_loop.simps) (simp add: no_more_pipes_refl)
  next
    case True
    define s1 where "s1 = record_call (SysWaitpid (ps ! nat i) (wait_res e (ps ! nat i))) s"
    have a: "no_more_pipes s (log s1)"
      by (simp add: s1_def no_more_pipes_call)
    have w: "snd (sys_waitpid e (ps ! nat i) st s) = s1"
      by (simp add: sys_waitpid_def s1_def)
    show ?thesis
    proof (cases "fst (sys_waitpid e (ps ! nat i) st s)")
      case None
      then have "wait_loop e ps N i st s = Inl (Hang s1)"
        using True w by (subst wait_loop.simps) (simp add: split_beta)
      with a show ?thesis by simp
    next
      case (Some r)
      obtain x st' where r: "r = (x, st')" by (cases r)
      show ?thesis
      proof (cases "st' \<noteq> 0")
        case True
        then have "wait_loop e ps N i st s
            = Inl (Exit EXIT_FAILURE (perror ''Child process failed'' s1))"
          using \<open>i < N\<close> w Some r by (subst wait_loop.simps) (simp add: split_beta)
        with a show ?thesis by (simp add: perror_def)
      next
        case False
        then have step: "wait_loop e ps N i st s = wait_loop e ps N (i + 1) st' s1"
          using \<open>i < N\<close> w Some r by (subst wait_loop.simps) (simp add: split_beta)
        have "sys_waitpid e (ps ! nat i) st s = (Some (x, st'), s1)"
          using Some r w by (metis prod.collapse)
        then have "case wait_loop e ps N (i + 1) st' s1 of
              Inl out \<Rightarrow> no_more_pipes s1 (out_log out)
            | Inr s' \<Rightarrow> no_more_pipes s1 (log s')"
          using \<open>i < N\<close> False by (intro "1.IH") auto
        with a show ?thesis
          unfolding step by (auto simp: no_more_pipes_trans split: sum.splits)
      qed
    qed
  qed
qed


lemma after_create_pipes_no_pipe:
  "no_more_pipes s1
     (out_log (case exec_loop e cmds N pa 0 [] s1 of
                 Inl out \<Rightarrow> out
               | Inr (processes, s2) \<Rightarrow>
                   (case wait_for_processes e processes N (close_pipes e N pa s2) of
                      Inl out \<Rightarrow> out
                    | Inr s3 \<Rightarrow> Exit EXIT_SUCCESS s3)))"
proof (cases "exec_loop e cmds N pa 0 [] s1")
  case (Inl out)
  with exec_loop_no_pipe [where e = e and cmds = cmds and N = N and pa = pa and i = 0
      and ps = "[]" and s = s1]
  show ?thesis by simp
next
  case (Inr r)
  obtain ps s2 where r: "r = (ps, s2)" by (cases r)
  with Inr exec_loop_no_pipe [where e = e and cmds = cmds and N = N and pa = pa and i = 0
      and ps = "[]" and s = s1]
  have a: "no_more_pipes s1 (log s2)" by simp
  have b: "no_more_pipes s2 (log (close_pipes e N pa s2))"
    by (simp add: close_pipes_def close_pipes_loop_no_pipe)
  have c: "case wait_for_processes e ps N (close_pipes e N pa s2) of
        Inl out \<Rightarrow> no_more_pipes (close_pipes e N pa s2) (out_log out)
      | Inr s' \<Rightarrow> no_more_pipes (close_pipes e N pa s2) (log s')"
    unfolding wait_for_processes_def by (rule wait_loop_no_pipe)
  from a b have ab: "no_more_pipes s1 (log (close_pipes e N pa s2))"
    by (rule no_more_pipes_trans)
  show ?thesis
    using c no_more_pipes_trans [OF ab] by (simp add: Inr r split: sum.splits)
qed

lemma pipe_calls_ok:
  "pipes_ok e m \<Longrightarrow> pipe_calls e 0 m = map (\<lambda>p. SysPipe (Some p)) (bank e 0 m)"
  by (auto simp: pipes_ok_def pipe_calls_def bank_def list_all_iff)

subsection \<open>The Pipe Bank\<close>

text \<open>
  C5. \<^verbatim>\<open>create_pipes\<close> calls \<^verbatim>\<open>pipe\<close> once for each of the max(N - 1, 0) junctions,
  before anything else. When these calls succeed, the log of the run (of the parent or
  of a child, whatever happens later) starts with max(N - 1, 0) successful calls of
  \<^verbatim>\<open>pipe\<close>, one for each pair of the bank, and has no other call of \<^verbatim>\<open>pipe\<close>: every
  pipe exists before the first \<^verbatim>\<open>fork\<close>. When one of these calls fails, the program
  reports \<^verbatim>\<open>Pipe failed\<close> and exits with \<^verbatim>\<open>EXIT_FAILURE\<close>, which is not 0, having
  made calls of \<^verbatim>\<open>pipe\<close> only: no process was launched.
\<close>

theorem pipe_bank_created_first:
  "(pipes_ok e (length cmds - 1) \<longrightarrow>
      (\<exists>rest. out_log (main_pipeline e cmds (int (length cmds)) (proc0 e))
                 = map (\<lambda>p. SysPipe (Some p)) (bank e 0 (length cmds - 1)) @ rest
            \<and> list_all (\<lambda>c. \<not> is_pipe c) rest)
      \<and> int (length (bank e 0 (length cmds - 1))) = max (int (length cmds) - 1) 0)
   \<and> (\<not> pipes_ok e (length cmds - 1) \<longrightarrow>
      exit_status (main_pipeline e cmds (int (length cmds)) (proc0 e)) = Some EXIT_FAILURE
      \<and> out_stderr (main_pipeline e cmds (int (length cmds)) (proc0 e))
          = [Perror ''Pipe failed'']
      \<and> list_all is_pipe (out_log (main_pipeline e cmds (int (length cmds)) (proc0 e))))
   \<and> EXIT_FAILURE \<noteq> 0"
proof -
  let ?N = "int (length cmds)" and ?m = "length cmds - 1"
  have m: "nat (?N - 1 - 0) = ?m" by simp
  have p0: "n_pipe (proc0 e) = 0" "log (proc0 e) = []" "stderr (proc0 e) = []"
    by (simp_all add: proc0_def)
  have ok: "\<exists>rest. out_log (main_pipeline e cmds ?N (proc0 e))
                 = map (\<lambda>p. SysPipe (Some p)) (bank e 0 ?m) @ rest
            \<and> list_all (\<lambda>c. \<not> is_pipe c) rest"
    if a: "pipes_ok e ?m"
  proof -
    from a have "\<forall>j. n_pipe (proc0 e) \<le> j \<and> j < n_pipe (proc0 e) + ?m \<longrightarrow> pipe_res e j \<noteq> None"
      by (simp add: pipes_ok_def list_all_iff p0)
    from create_pipes_loop_ok [OF m this, of "[]"] obtain s1
      where s1: "create_pipes e ?N (proc0 e) = Inr (bank e 0 ?m, s1)"
        "log s1 = pipe_calls e 0 ?m"
      by (auto simp: create_pipes_def p0)
    have "no_more_pipes s1 (out_log (main_pipeline e cmds ?N (proc0 e)))"
      unfolding main_pipeline_def s1(1) using after_create_pipes_no_pipe [of s1] by simp
    then show ?thesis
      unfolding no_more_pipes_def s1(2) pipe_calls_ok [OF a] by blast
  qed
  have bad: "exit_status (main_pipeline e cmds ?N (proc0 e)) = Some EXIT_FAILURE
      \<and> out_stderr (main_pipeline e cmds ?N (proc0 e)) = [Perror ''Pipe failed'']
      \<and> list_all is_pipe (out_log (main_pipeline e cmds ?N (proc0 e)))"
    if a: "\<not> pipes_ok e ?m"
  proof -
    from a have "\<exists>j \<in> set [0..<?m]. \<not> pipe_res e j \<noteq> None"
      unfolding pipes_ok_def list_all_iff by blast
    then obtain j where j: "j \<in> set [0..<?m]" "\<not> pipe_res e j \<noteq> None"
      by blast
    from j(1) have "j < ?m" by simp
    moreover from j(2) have "pipe_res e j = None" by blast
    ultimately have "j < ?m" "pipe_res e j = None" .
    then have "\<exists>j. n_pipe (proc0 e) \<le> j \<and> j < n_pipe (proc0 e) + ?m \<and> pipe_res e j = None"
      unfolding p0 by (intro exI [of _ j]) simp
    from create_pipes_loop_fail [OF m this, of "[]"] obtain s' l
      where "create_pipes e ?N (proc0 e) = Inl (Exit EXIT_FAILURE s')"
        "log s' = l" "\<forall>c \<in> set l. is_pipe c" "stderr s' = [Perror ''Pipe failed'']"
      by (auto simp: create_pipes_def p0)
    then show ?thesis
      by (simp add: main_pipeline_def list_all_iff)
  qed
  have "int (length (bank e 0 ?m)) = max (?N - 1) 0"
    by (simp add: bank_def)
  with ok bad show ?thesis
    by (simp add: EXIT_FAILURE_def)
qed

theorem pipe_bank_created_first_witness:
  "pipes_ok env_ok (length [''echo hello'', ''tr a-z A-Z''] - 1)
   \<and> (\<exists>rest. out_log (main_pipeline env_ok [''echo hello'', ''tr a-z A-Z''] 2 (proc0 env_ok))
                 = SysPipe (Some (3, 4)) # rest
            \<and> list_all (\<lambda>c. \<not> is_pipe c) rest)
   \<and> \<not> pipes_ok (env_ok\<lparr>pipe_res := (\<lambda>k. None)\<rparr>) (length [''echo hello'', ''tr a-z A-Z''] - 1)
   \<and> exit_status (main_pipeline (env_ok\<lparr>pipe_res := (\<lambda>k. None)\<rparr>)
         [''echo hello'', ''tr a-z A-Z''] 2 (proc0 (env_ok\<lparr>pipe_res := (\<lambda>k. None)\<rparr>))) = Some 1
   \<and> out_stderr (main_pipeline (env_ok\<lparr>pipe_res := (\<lambda>k. None)\<rparr>)
         [''echo hello'', ''tr a-z A-Z''] 2 (proc0 (env_ok\<lparr>pipe_res := (\<lambda>k. None)\<rparr>)))
       = [Perror ''Pipe failed'']"
proof -
  have a: "pipes_ok env_ok (length [''echo hello'', ''tr a-z A-Z''] - 1)"
    by (simp add: pipes_ok_def env_ok_def)
  have b: "\<not> pipes_ok (env_ok\<lparr>pipe_res := (\<lambda>k. None)\<rparr>) (length [''echo hello'', ''tr a-z A-Z''] - 1)"
    by (simp add: pipes_ok_def)
  have c: "bank env_ok 0 (Suc 0) = [(3, 4)]"
    by (simp add: bank_def env_ok_def)
  show ?thesis
    using pipe_bank_created_first [of env_ok "[''echo hello'', ''tr a-z A-Z'']"]
      pipe_bank_created_first [of "env_ok\<lparr>pipe_res := (\<lambda>k. None)\<rparr>" "[''echo hello'', ''tr a-z A-Z'']"]
      a b
    by (simp add: c EXIT_FAILURE_def)
qed

subsection \<open>The descriptors of a child\<close>

lemma fd_list_Cons: "fd_list (p # pa) = fst p # snd p # fd_list pa"
  by (simp add: fd_list_def)

lemma fd_list_nth:
  "j < length pa \<Longrightarrow> fst (pa ! j) \<in> set (fd_list pa) \<and> snd (pa ! j) \<in> set (fd_list pa)"
  by (auto simp: fd_list_def)

lemma pipes_ok_shift:
  "list_all (\<lambda>j. pipe_res e j \<noteq> None) [k..<k + Suc m]
     = (pipe_res e k \<noteq> None \<and> list_all (\<lambda>j. pipe_res e j \<noteq> None) [Suc k..<Suc k + m])"
  unfolding upt_add_Suc by simp

lemma install_outside:
  "list_all (\<lambda>j. pipe_res e j \<noteq> None) [k..<k + m] \<Longrightarrow> fd \<notin> set (fd_list (bank e k m))
     \<Longrightarrow> install e k m t fd = t fd"
proof (induction m arbitrary: k t)
  case 0
  show ?case by simp
next
  case (Suc m)
  from Suc.prems(1) obtain r w where p: "pipe_res e k = Some (r, w)"
    and rest: "list_all (\<lambda>j. pipe_res e j \<noteq> None) [Suc k..<Suc k + m]"
    unfolding pipes_ok_shift by (cases "pipe_res e k") auto
  from Suc.prems(2) have fd: "fd \<noteq> r" "fd \<noteq> w" "fd \<notin> set (fd_list (bank e (Suc k) m))"
    by (simp_all add: bank_Suc fd_list_Cons p)
  have "install e k (Suc m) t fd
      = install e (Suc k) m (t(r \<mapsto> ReadEnd k, w \<mapsto> WriteEnd k)) fd"
    by (simp add: p)
  also have "\<dots> = (t(r \<mapsto> ReadEnd k, w \<mapsto> WriteEnd k)) fd"
    using rest fd(3) by (rule Suc.IH)
  finally show ?case using fd by simp
qed

lemma install_ends:
  "list_all (\<lambda>j. pipe_res e j \<noteq> None) [k..<k + m] \<Longrightarrow> distinct (fd_list (bank e k m))
     \<Longrightarrow> j < m
     \<Longrightarrow> install e k m t (fst (bank e k m ! j)) = Some (ReadEnd (k + j))
       \<and> install e k m t (snd (bank e k m ! j)) = Some (WriteEnd (k + j))"
proof (induction m arbitrary: k t j)
  case 0
  then show ?case by simp
next
  case (Suc m)
  from Suc.prems(1) obtain r w where p: "pipe_res e k = Some (r, w)"
    and rest: "list_all (\<lambda>j. pipe_res e j \<noteq> None) [Suc k..<Suc k + m]"
    unfolding pipes_ok_shift by (cases "pipe_res e k") auto
  from Suc.prems(2) have d: "r \<noteq> w" "r \<notin> set (fd_list (bank e (Suc k) m))"
    "w \<notin> set (fd_list (bank e (Suc k) m))" "distinct (fd_list (bank e (Suc k) m))"
    by (simp_all add: bank_Suc fd_list_Cons p)
  let ?t = "t(r \<mapsto> ReadEnd k, w \<mapsto> WriteEnd k)"
  have unf: "install e k (Suc m) t = install e (Suc k) m ?t"
    by (simp add: p)
  show ?case
  proof (cases j)
    case 0
    have "install e (Suc k) m ?t r = ?t r" "install e (Suc k) m ?t w = ?t w"
      using rest d(2) d(3) by (simp_all add: install_outside)
    with 0 d(1) show ?thesis
      unfolding unf by (simp add: bank_Suc p)
  next
    case (Suc j')
    with Suc.prems(3) have "j' < m" by simp
    note ih = Suc.IH [OF rest d(4) this, of ?t]
    have eq: "bank e k (Suc m) ! j = bank e (Suc k) m ! j'" "k + j = Suc k + j'"
      by (simp_all add: bank_Suc Suc)
    from ih show ?thesis
      unfolding unf eq .
  qed
qed

lemma sys_dup2_open:
  assumes "fds s oldfd = Some c"
  shows "fst (sys_dup2 oldfd newfd s) = newfd"
    and "fds (snd (sys_dup2 oldfd newfd s)) = (fds s)(newfd \<mapsto> c)"
    and "stderr (snd (sys_dup2 oldfd newfd s)) = stderr s"
  using assms by (simp_all add: sys_dup2_def record_call_def)

lemma exec_command_child:
  assumes f: "fork_res e (n_fork s) = 0"
    and len: "length pa = nat (N - 1)" and i: "0 \<le> i" "i < N"
    and tab: "\<forall>j < length pa. fds s (fst (pa ! j)) = Some (ReadEnd j)
                \<and> fds s (snd (pa ! j)) = Some (WriteEnd j)"
    and std: "0 \<notin> set (fd_list pa)" "1 \<notin> set (fd_list pa)"
  shows "\<exists>s'. exec_command e command N pa i s = Inl (execute e command s')
      \<and> fds s' = (\<lambda>fd. if fd \<in> set (fd_list pa) then None
                       else if fd = 0 \<and> 0 < i then Some (ReadEnd (nat (i - 1)))
                       else if fd = 1 \<and> i < N - 1 then Some (WriteEnd (nat i))
                       else fds s fd)
      \<and> stderr s' = stderr s"
proof -
  define s0 where "s0 = record_call (SysFork 0) (s\<lparr>n_fork := Suc (n_fork s)\<rparr>)"
  have fk: "sys_fork e s = (0, s0)"
    by (simp add: sys_fork_def s0_def f)
  have s0: "fds s0 = fds s" "stderr s0 = stderr s"
    by (simp_all add: s0_def record_call_def)
  \<comment> \<open>standard input\<close>
  obtain s1 where s1: "redirect_stdin e pa i s0 = Inr s1" "stderr s1 = stderr s"
    "fds s1 = (if 0 < i then (fds s)(0 \<mapsto> ReadEnd (nat (i - 1)), snd (pa ! nat (i - 1)) := None)
               else fds s)"
  proof (cases "0 < i")
    case False
    with that [of s0] s0 show ?thesis by (simp add: redirect_stdin_def)
  next
    case True
    with i len have "nat (i - 1) < length pa" by auto
    with tab have o: "fds s0 (fst (pa ! nat (i - 1))) = Some (ReadEnd (nat (i - 1)))"
      by (simp add: s0)
    let ?d = "sys_dup2 (fst (pa ! nat (i - 1))) STDIN_FILENO s0"
    have "redirect_stdin e pa i s0 = Inr (snd (sys_close e (snd (pa ! nat (i - 1))) (snd ?d)))"
      using True sys_dup2_open(1) [OF o, of STDIN_FILENO]
      by (simp add: redirect_stdin_def split_beta STDIN_FILENO_def)
    with that True show ?thesis
      by (simp add: sys_close_fds sys_close_rest sys_dup2_open [OF o] s0 STDIN_FILENO_def)
  qed
  \<comment> \<open>standard output\<close>
  obtain s2 where s2: "redirect_stdout e N pa i s1 = Inr s2" "stderr s2 = stderr s"
    "fds s2 = (if i < N - 1 then (fds s1)(1 \<mapsto> WriteEnd (nat i), fst (pa ! nat i) := None)
               else fds s1)"
  proof (cases "i < N - 1")
    case False
    with that [of s1] s1 show ?thesis by (simp add: redirect_stdout_def)
  next
    case True
    with i len have li: "nat i < length pa" by auto
    with tab have w: "fds s (snd (pa ! nat i)) = Some (WriteEnd (nat i))"
      by simp
    have "snd (pa ! nat i) \<noteq> 0"
      using fd_list_nth [OF li] std(1) by metis
    moreover have "snd (pa ! nat i) \<noteq> snd (pa ! nat (i - 1))" if "0 < i"
    proof
      assume eq: "snd (pa ! nat i) = snd (pa ! nat (i - 1))"
      from that i len have "nat (i - 1) < length pa" by auto
      with tab have "fds s (snd (pa ! nat (i - 1))) = Some (WriteEnd (nat (i - 1)))"
        by simp
      with w eq have "nat i = nat (i - 1)" by simp
      with that show False by simp
    qed
    ultimately have o: "fds s1 (snd (pa ! nat i)) = Some (WriteEnd (nat i))"
      using w by (cases "0 < i") (simp_all add: s1(3))
    let ?d = "sys_dup2 (snd (pa ! nat i)) STDOUT_FILENO s1"
    have "redirect_stdout e N pa i s1 = Inr (snd (sys_close e (fst (pa ! nat i)) (snd ?d)))"
      using True sys_dup2_open(1) [OF o, of STDOUT_FILENO]
      by (simp add: redirect_stdout_def split_beta STDOUT_FILENO_def)
    with that True show ?thesis
      by (simp add: sys_close_fds sys_close_rest sys_dup2_open [OF o] s1 STDOUT_FILENO_def)
  qed
  \<comment> \<open>closing the bank\<close>
  define s3 where "s3 = close_pipes e N pa s2"
  have m: "nat (N - 1 - 0) = nat (N - 1)" by simp
  from close_pipes_loop_effect [OF m _ len, of e s2]
  have s3: "fds s3 = (\<lambda>fd. if fd \<in> set (fd_list pa) then None else fds s2 fd)"
    "stderr s3 = stderr s2"
    by (simp_all add: s3_def close_pipes_def)
  have run: "exec_command e command N pa i s = Inl (execute e command s3)"
    by (simp add: exec_command_def fk s1(1) s2(1) s3_def)
  have "fds s3 fd = (if fd \<in> set (fd_list pa) then None
                       else if fd = 0 \<and> 0 < i then Some (ReadEnd (nat (i - 1)))
                       else if fd = 1 \<and> i < N - 1 then Some (WriteEnd (nat i))
                       else fds s fd)" for fd
  proof (cases "fd \<in> set (fd_list pa)")
    case True
    then show ?thesis by (simp add: s3(1))
  next
    case False
    have a: "fd \<noteq> fst (pa ! nat i) \<and> fst (pa ! nat i) \<noteq> 0 \<and> fst (pa ! nat i) \<noteq> 1"
      if "i < N - 1"
    proof -
      from that i len have "nat i < length pa" by auto
      from fd_list_nth [OF this] False std show ?thesis by metis
    qed
    have b: "fd \<noteq> snd (pa ! nat (i - 1)) \<and> snd (pa ! nat (i - 1)) \<noteq> 0
        \<and> snd (pa ! nat (i - 1)) \<noteq> 1"
      if "0 < i"
    proof -
      from that i len have "nat (i - 1) < length pa" by auto
      from fd_list_nth [OF this] False std show ?thesis by metis
    qed
    show ?thesis
    proof (cases "0 < i")
      case True
      note pos = True
      show ?thesis
      proof (cases "i < N - 1")
        case True
        with pos False a b show ?thesis by (simp add: s3(1) s2(3) s1(3))
      next
        case False
        with pos \<open>fd \<notin> set (fd_list pa)\<close> b show ?thesis by (simp add: s3(1) s2(3) s1(3))
      qed
    next
      case False
      note npos = False
      show ?thesis
      proof (cases "i < N - 1")
        case True
        with npos \<open>fd \<notin> set (fd_list pa)\<close> a show ?thesis by (simp add: s3(1) s2(3) s1(3))
      next
        case False
        with npos \<open>fd \<notin> set (fd_list pa)\<close> show ?thesis by (simp add: s3(1) s2(3) s1(3))
      qed
    qed
  qed
  then have "fds s3 = (\<lambda>fd. if fd \<in> set (fd_list pa) then None
                       else if fd = 0 \<and> 0 < i then Some (ReadEnd (nat (i - 1)))
                       else if fd = 1 \<and> i < N - 1 then Some (WriteEnd (nat i))
                       else fds s fd)"
    by (rule ext)
  with run s3(2) s2(2) show ?thesis
    by (intro exI [of _ s3]) simp
qed

subsection \<open>The Process Launcher, standard streams open\<close>

text \<open>
  Let the pipes be created on new descriptors, standard input and standard output
  being open when the program starts. In the child of command \<open>i\<close> (the calls 0 to
  \<open>i - 1\<close> of \<^verbatim>\<open>fork\<close> return process identifiers and call \<open>i\<close> returns 0) the process
  reaches \<^verbatim>\<open>execute\<close> for command \<open>i\<close>, having reported nothing, with this descriptor
  table: every descriptor of every pair of the bank is closed; descriptor 0 is the read
  end of pipe \<open>i - 1\<close> when \<open>i > 0\<close>; descriptor 1 is the write end of pipe \<open>i\<close> when
  \<open>i < N - 1\<close>; every other descriptor is what the program started with. In the parent
  (every call of \<^verbatim>\<open>fork\<close> returns a process identifier) the loop stores the identifier
  of child \<open>i\<close> at position \<open>i\<close> of \<^verbatim>\<open>processes\<close> and makes no system call but the N
  calls of \<^verbatim>\<open>fork\<close>: it does not wait between them.
\<close>

lemma child_descriptors_streams_open:
  assumes "i < length cmds" and "pipes_ok e (length cmds - 1)"
    and "fresh_pipes e (length cmds - 1)"
  shows "(forks_ok e 0 i \<and> fork_res e i = 0 \<longrightarrow>
            (\<exists>s'. main_pipeline e cmds (int (length cmds)) (proc0 e) = execute e (cmds ! i) s'
               \<and> fds s' = (\<lambda>fd. if fd \<in> set (fd_list (bank e 0 (length cmds - 1))) then None
                                else if fd = 0 \<and> 0 < i then Some (ReadEnd (i - 1))
                                else if fd = 1 \<and> i + 1 < length cmds then Some (WriteEnd i)
                                else fds0 e fd)
               \<and> stderr s' = []))
       \<and> (forks_ok e 0 (length cmds) \<longrightarrow>
            (\<exists>s1 ps s2. create_pipes e (int (length cmds)) (proc0 e)
                           = Inr (bank e 0 (length cmds - 1), s1)
               \<and> exec_loop e cmds (int (length cmds)) (bank e 0 (length cmds - 1)) 0 [] s1
                   = Inr (ps, s2)
               \<and> length ps = length cmds \<and> ps ! i = fork_res e i
               \<and> log s2 = log s1 @ fork_calls e 0 (length cmds)))"
proof -
  let ?N = "int (length cmds)" and ?m = "length cmds - 1"
  let ?pa = "bank e 0 ?m"
  have m: "nat (?N - 1 - 0) = ?m" by simp
  have p0: "n_pipe (proc0 e) = 0" "n_fork (proc0 e) = 0" "stderr (proc0 e) = []"
    "fds (proc0 e) = fds0 e"
    by (simp_all add: proc0_def)
  have all: "list_all (\<lambda>j. pipe_res e j \<noteq> None) [0..<0 + ?m]"
    using assms(2) by (simp add: pipes_ok_def)
  then have "\<forall>j. n_pipe (proc0 e) \<le> j \<and> j < n_pipe (proc0 e) + ?m \<longrightarrow> pipe_res e j \<noteq> None"
    by (simp add: list_all_iff p0)
  from create_pipes_loop_ok [OF m this, of "[]"] obtain s1
    where s1: "create_pipes e ?N (proc0 e) = Inr (?pa, s1)" "stderr s1 = []" "n_fork s1 = 0"
      "fds s1 = install e 0 ?m (fds0 e)"
    by (auto simp: create_pipes_def p0)
  have child: "\<exists>s'. main_pipeline e cmds ?N (proc0 e) = execute e (cmds ! i) s'
               \<and> fds s' = (\<lambda>fd. if fd \<in> set (fd_list ?pa) then None
                                else if fd = 0 \<and> 0 < i then Some (ReadEnd (i - 1))
                                else if fd = 1 \<and> i + 1 < length cmds then Some (WriteEnd i)
                                else fds0 e fd)
               \<and> stderr s' = []"
    if f: "forks_ok e 0 i" "fork_res e i = 0"
  proof -
    have "forks_ok e (n_fork s1) i" "int i < ?N" "fork_res e (n_fork s1 + i) = 0"
      using f assms(1) by (simp_all add: s1(3))
    from exec_loop_child [OF this, of cmds ?pa] obtain sc out
      where sc: "exec_loop e cmds ?N ?pa 0 [] s1 = Inl out"
        "exec_command e (cmds ! i) ?N ?pa (int i) sc = Inl out"
        "fds sc = fds s1" "stderr sc = stderr s1" "n_fork sc = i"
      by (auto simp: s1(3))
    have len: "length ?pa = nat (?N - 1)" by (simp add: bank_def)
    have tab: "\<forall>j < length ?pa. fds sc (fst (?pa ! j)) = Some (ReadEnd j)
                \<and> fds sc (snd (?pa ! j)) = Some (WriteEnd j)"
    proof (intro allI impI)
      fix j assume "j < length ?pa"
      then have "j < ?m" by (simp add: bank_def)
      from install_ends [OF all _ this, of "fds0 e"] assms(3)
      show "fds sc (fst (?pa ! j)) = Some (ReadEnd j) \<and> fds sc (snd (?pa ! j)) = Some (WriteEnd j)"
        by (simp add: fresh_pipes_def sc(3) s1(4))
    qed
    have std: "0 \<notin> set (fd_list ?pa)" "1 \<notin> set (fd_list ?pa)"
      using assms(3) by (auto simp: fresh_pipes_def list_all_iff)
    have "fork_res e (n_fork sc) = 0" using f(2) sc(5) by simp
    from exec_command_child [OF this len _ _ tab std, of "int i" "cmds ! i"] assms(1) obtain s'
      where s': "exec_command e (cmds ! i) ?N ?pa (int i) sc = Inl (execute e (cmds ! i) s')"
        "fds s' = (\<lambda>fd. if fd \<in> set (fd_list ?pa) then None
                       else if fd = 0 \<and> 0 < int i then Some (ReadEnd (nat (int i - 1)))
                       else if fd = 1 \<and> int i < ?N - 1 then Some (WriteEnd (nat (int i)))
                       else fds sc fd)"
        "stderr s' = stderr sc"
      by auto
    have out: "main_pipeline e cmds ?N (proc0 e) = execute e (cmds ! i) s'"
      using s1(1) sc(1) sc(2) s'(1) by (simp add: main_pipeline_def)
    have "fds s' fd = (if fd \<in> set (fd_list ?pa) then None
                                else if fd = 0 \<and> 0 < i then Some (ReadEnd (i - 1))
                                else if fd = 1 \<and> i + 1 < length cmds then Some (WriteEnd i)
                                else fds0 e fd)" for fd
    proof (cases "fd \<in> set (fd_list ?pa)")
      case True
      then show ?thesis by (simp add: s'(2))
    next
      case False
      have "fds sc fd = fds0 e fd"
        using install_outside [OF all False, of "fds0 e"] by (simp add: sc(3) s1(4))
      moreover have "nat (int i - 1) = i - 1" by simp
      moreover have "(int i < ?N - 1) = (i + 1 < length cmds)" by auto
      ultimately show ?thesis using False by (simp add: s'(2))
    qed
    then have "fds s' = (\<lambda>fd. if fd \<in> set (fd_list ?pa) then None
                                else if fd = 0 \<and> 0 < i then Some (ReadEnd (i - 1))
                                else if fd = 1 \<and> i + 1 < length cmds then Some (WriteEnd i)
                                else fds0 e fd)"
      by (rule ext)
    with out s'(3) sc(4) s1(2) show ?thesis
      by (intro exI [of _ s']) simp
  qed
  have parent: "\<exists>s1 ps s2. create_pipes e ?N (proc0 e) = Inr (?pa, s1)
               \<and> exec_loop e cmds ?N ?pa 0 [] s1 = Inr (ps, s2)
               \<and> length ps = length cmds \<and> ps ! i = fork_res e i
               \<and> log s2 = log s1 @ fork_calls e 0 (length cmds)"
    if f: "forks_ok e 0 (length cmds)"
  proof -
    have "forks_ok e (n_fork s1) (length cmds)" using f by (simp add: s1(3))
    from exec_loop_parent [OF this refl, of cmds ?pa] obtain s2
      where s2: "exec_loop e cmds ?N ?pa 0 [] s1 = Inr (pids e 0 (length cmds), s2)"
        "log s2 = log s1 @ fork_calls e 0 (length cmds)"
      by (auto simp: s1(3))
    have "length (pids e 0 (length cmds)) = length cmds"
      "pids e 0 (length cmds) ! i = fork_res e i"
      using assms(1) by (simp_all add: pids_def)
    with s1(1) s2 show ?thesis by blast
  qed
  from child parent show ?thesis by blast
qed


lemma child_descriptors_streams_open_example:
  "1 < length [''echo hi'', ''cat'', ''wc'']
   \<and> pipes_ok env_child (length [''echo hi'', ''cat'', ''wc''] - 1)
   \<and> fresh_pipes env_child (length [''echo hi'', ''cat'', ''wc''] - 1)
   \<and> forks_ok env_child 0 1 \<and> fork_res env_child 1 = 0
   \<and> (\<exists>s'. main_pipeline env_child [''echo hi'', ''cat'', ''wc''] 3 (proc0 env_child)
              = execute env_child ''cat'' s'
         \<and> fds s' 0 = Some (ReadEnd 0) \<and> fds s' 1 = Some (WriteEnd 1)
         \<and> fds s' 2 = Some (Inherited 2)
         \<and> fds s' 3 = None \<and> fds s' 4 = None \<and> fds s' 5 = None \<and> fds s' 6 = None)
   \<and> forks_ok env_child 0 (length [''echo hi'', ''cat'', ''wc'']) = False
   \<and> forks_ok env_ok 0 (length [''echo hi'', ''cat'', ''wc''])
   \<and> (\<exists>s1 ps s2. exec_loop env_ok [''echo hi'', ''cat'', ''wc''] 3 [(3, 4), (5, 6)] 0 [] s1
                     = Inr (ps, s2)
         \<and> length ps = 3 \<and> ps ! 1 = 101
         \<and> log s2 = log s1 @ [SysFork 100, SysFork 101, SysFork 102])"
proof -
  let ?cmds = "[''echo hi'', ''cat'', ''wc'']"
  have b: "bank env_child 0 (length ?cmds - 1) = [(3, 4), (5, 6)]"
    "bank env_ok 0 (length ?cmds - 1) = [(3, 4), (5, 6)]"
    by (simp_all add: bank_def upt_3 env_child_def env_ok_def)
  have fc: "fork_calls env_ok 0 (length ?cmds) = [SysFork 100, SysFork 101, SysFork 102]"
    by (simp add: fork_calls_def upt_3 env_ok_def)
  have h1: "1 < length ?cmds" by simp
  have h2: "pipes_ok env_child (length ?cmds - 1)" "pipes_ok env_ok (length ?cmds - 1)"
    by (simp_all add: pipes_ok_def upt_3 env_child_def env_ok_def)
  have h3: "fresh_pipes env_child (length ?cmds - 1)" "fresh_pipes env_ok (length ?cmds - 1)"
    unfolding fresh_pipes_def b by (simp_all add: fd_list_def env_child_def env_ok_def)
  have h4: "forks_ok env_child 0 1" "fork_res env_child 1 = 0"
    "forks_ok env_child 0 (length ?cmds) = False" "forks_ok env_ok 0 (length ?cmds)"
    by (simp_all add: forks_ok_def upt_3 env_child_def env_ok_def)
  have f0: "fds0 env_child = [0 \<mapsto> Inherited 0, 1 \<mapsto> Inherited 1, 2 \<mapsto> Inherited 2]"
    by (simp add: env_child_def env_ok_def)
  from child_descriptors_streams_open [OF h1 h2(1) h3(1)] h4(1) h4(2)
  obtain s' where s': "main_pipeline env_child ?cmds 3 (proc0 env_child)
        = execute env_child ''cat'' s'"
    "fds s' = (\<lambda>fd. if fd \<in> set (fd_list [(3, 4), (5, 6)]) then None
                                else if fd = 0 \<and> 0 < (1::nat) then Some (ReadEnd (1 - 1))
                                else if fd = 1 \<and> (1::nat) + 1 < length ?cmds then Some (WriteEnd 1)
                                else fds0 env_child fd)"
    unfolding b by auto
  have c: "\<exists>s'. main_pipeline env_child ?cmds 3 (proc0 env_child) = execute env_child ''cat'' s'
         \<and> fds s' 0 = Some (ReadEnd 0) \<and> fds s' 1 = Some (WriteEnd 1)
         \<and> fds s' 2 = Some (Inherited 2)
         \<and> fds s' 3 = None \<and> fds s' 4 = None \<and> fds s' 5 = None \<and> fds s' 6 = None"
    by (intro exI [of _ s']) (simp add: s' fd_list_def f0)
  from child_descriptors_streams_open [OF h1 h2(2) h3(2)] h4(4)
  obtain s1 ps s2
    where r: "exec_loop env_ok ?cmds (int (length ?cmds)) (bank env_ok 0 (length ?cmds - 1)) 0 [] s1
          = Inr (ps, s2)"
      "length ps = length ?cmds" "ps ! 1 = fork_res env_ok 1"
      "log s2 = log s1 @ fork_calls env_ok 0 (length ?cmds)"
    by blast
  have fr: "fork_res env_ok 1 = 101"
    by (simp add: env_ok_def)
  have p: "\<exists>s1 ps s2. exec_loop env_ok ?cmds 3 [(3, 4), (5, 6)] 0 [] s1 = Inr (ps, s2)
         \<and> length ps = 3 \<and> ps ! 1 = 101
         \<and> log s2 = log s1 @ [SysFork 100, SysFork 101, SysFork 102]"
    using r unfolding b fc fr
    by (intro exI [of _ s1] exI [of _ ps] exI [of _ s2]) simp
  from h1 h2 h3 h4 c p show ?thesis by blast
qed

subsection \<open>Runs on concrete input\<close>

lemmas run_simps = main_pipeline_def create_pipes_def create_pipes_loop.simps exec_loop.simps
  exec_command_def close_pipes_def close_pipes_loop.simps wait_for_processes_def
  wait_loop.simps sys_pipe_def sys_fork_def sys_close_def sys_waitpid_def record_call_def
  perror_def proc0_def EXIT_SUCCESS_def EXIT_FAILURE_def

lemma read_one_line:
  "read_input env_wait_fails (stdin_data env_wait_fails) (proc0 env_wait_fails)
     = Inr (([''false''], 1), proc0 env_wait_fails)"
proof -
  have a: "allocs_ok env_wait_fails"
    by (simp add: allocs_ok_def env_wait_fails_def env_ok_def)
  have "read_input_loop env_wait_fails (''false'' @ newline # []) [] 0 (proc0 env_wait_fails)
      = read_input_loop env_wait_fails [] ([] @ [''false'']) (0 + 1) (proc0 env_wait_fails)"
    by (rule read_last_fragment [OF a]) (simp_all add: newline_def NUL_def)
  also have "\<dots> = Inr (([''false''], 1), proc0 env_wait_fails)"
    by (subst read_input_loop.simps) (simp add: fgets_def)
  finally show ?thesis
    by (simp add: read_input_def env_wait_fails_def)
qed

lemma read_two_lines:
  "read_input env_close_fails (stdin_data env_close_fails) (proc0 env_close_fails)
     = Inr (([''echo hello'', ''tr a-z A-Z''], 2), proc0 env_close_fails)"
proof -
  have a: "allocs_ok env_close_fails"
    by (simp add: allocs_ok_def env_close_fails_def env_ok_def)
  have "read_input_loop env_close_fails (''echo hello'' @ newline # ''tr a-z A-Z'' @ [newline])
          [] 0 (proc0 env_close_fails)
      = read_input_loop env_close_fails (''tr a-z A-Z'' @ newline # []) ([] @ [''echo hello''])
          (0 + 1) (proc0 env_close_fails)"
    by (rule read_last_fragment [OF a]) (simp_all add: newline_def NUL_def)
  also have "\<dots> = read_input_loop env_close_fails [] (([] @ [''echo hello'']) @ [''tr a-z A-Z''])
          (0 + 1 + 1) (proc0 env_close_fails)"
    by (rule read_last_fragment [OF a]) (simp_all add: newline_def NUL_def)
  also have "\<dots> = Inr (([''echo hello'', ''tr a-z A-Z''], 2), proc0 env_close_fails)"
    by (subst read_input_loop.simps) (simp add: fgets_def)
  finally show ?thesis
    by (simp add: read_input_def env_close_fails_def env_ok_def)
qed

subsection \<open>A failing \<^verbatim>\<open>waitpid\<close>\<close>

text \<open>
  C2. \<^verbatim>\<open>wait_for_processes\<close> does not look at the value that \<^verbatim>\<open>waitpid\<close> returns:
  it tests \<^verbatim>\<open>status\<close> only, and a call that fails leaves \<^verbatim>\<open>status\<close> as it was. In the
  run below the only call of \<^verbatim>\<open>waitpid\<close> fails, and the program reports nothing and
  exits with status 0: the failure of the wait is not detected.
\<close>

theorem wait_failure_passes_silently:
  "exit_status (main env_wait_fails [''mexec'']) = Some 0
   \<and> out_stderr (main env_wait_fails [''mexec'']) = []
   \<and> out_log (main env_wait_fails [''mexec'']) = [SysFork 100, SysWaitpid 100 WaitError]"
proof -
  have "main env_wait_fails [''mexec'']
      = main_pipeline env_wait_fails [''false''] 1 (proc0 env_wait_fails)"
    by (simp add: main_def read_one_line)
  also have "\<dots> = Exit 0 ((proc0 env_wait_fails)
      \<lparr>n_fork := 1, log := [SysFork 100, SysWaitpid 100 WaitError]\<rparr>)"
    by (simp add: run_simps env_wait_fails_def env_ok_def)
  finally show ?thesis by (simp add: proc0_def)
qed

subsection \<open>A failing \<^verbatim>\<open>close\<close>\<close>

text \<open>
  C3, as stated, does not hold: in the run below both calls of \<^verbatim>\<open>close\<close> made by the
  parent after the children are launched fail (they return -1), and the program
  reports nothing, waits for its two children and exits with status 0.
\<close>

theorem close_failure_is_fatal_counterexample:
  "exit_status (main env_close_fails [''mexec'']) = Some 0
   \<and> out_stderr (main env_close_fails [''mexec'']) = []
   \<and> out_log (main env_close_fails [''mexec''])
       = [SysPipe (Some (3, 4)), SysFork 100, SysFork 101, SysClose 3 (- 1), SysClose 4 (- 1),
          SysWaitpid 100 (Reaped (Exited 0)), SysWaitpid 101 (Reaped (Exited 0))]"
proof -
  have "main env_close_fails [''mexec'']
      = main_pipeline env_close_fails [''echo hello'', ''tr a-z A-Z''] 2 (proc0 env_close_fails)"
    by (simp add: main_def read_two_lines)
  also have "\<dots> = Exit 0 ((proc0 env_close_fails)
      \<lparr>fds := fds0 env_close_fails, n_pipe := 1, n_fork := 2,
        log := [SysPipe (Some (3, 4)), SysFork 100, SysFork 101, SysClose 3 (- 1),
                SysClose 4 (- 1), SysWaitpid 100 (Reaped (Exited 0)),
                SysWaitpid 101 (Reaped (Exited 0))]\<rparr>)"
    by (simp add: run_simps env_close_fails_def env_ok_def fun_upd_twist)
  finally show ?thesis by (simp add: proc0_def)
qed

lemma close_pipes_loop_stderr: "stderr (close_pipes_loop e N pa i s) = stderr s"
proof (induction e N pa i s rule: close_pipes_loop.induct)
  case (1 e N pa i s)
  show ?case
  proof (cases "i < N - 1")
    case False
    then show ?thesis by (subst close_pipes_loop.simps) simp
  next
    case True
    then show ?thesis
      using "1.IH" by (subst close_pipes_loop.simps) (simp add: sys_close_rest)
  qed
qed

lemma close_eio_stage_ok:
  "reaped (e\<lparr>close_eio := f\<rparr>) = reaped e"
  "stage_ok (e\<lparr>close_eio := f\<rparr>) = stage_ok e"
  "wait_calls (e\<lparr>close_eio := f\<rparr>) = wait_calls e"
  by (simp_all add: reaped_def stage_ok_def wait_calls_def fun_eq_iff)

lemma close_eio_irrelevant:
  "pipes_ok (e\<lparr>close_eio := f\<rparr>) m = pipes_ok e m"
  "forks_ok (e\<lparr>close_eio := f\<rparr>) k m = forks_ok e k m"
  "pids (e\<lparr>close_eio := f\<rparr>) k m = pids e k m"
  "waited (e\<lparr>close_eio := f\<rparr>) ps = waited e ps"
  "proc0 (e\<lparr>close_eio := f\<rparr>) = proc0 e"
  by (simp_all add: pipes_ok_def forks_ok_def pids_def waited_def proc0_def close_eio_stage_ok)

lemma parent_run_observed:
  assumes "pipes_ok e (length cmds - 1)" and "forks_ok e 0 (length cmds)"
    and "list_all (reaped e) (pids e 0 (length cmds))"
  shows "exit_status (main_pipeline e cmds (int (length cmds)) (proc0 e))
           = Some (if list_all (stage_ok e) (pids e 0 (length cmds)) then EXIT_SUCCESS
                   else EXIT_FAILURE)
       \<and> out_stderr (main_pipeline e cmds (int (length cmds)) (proc0 e))
           = (if list_all (stage_ok e) (pids e 0 (length cmds)) then []
              else [Perror ''Child process failed''])
       \<and> filter is_wait (out_log (main_pipeline e cmds (int (length cmds)) (proc0 e)))
           = wait_calls e (waited e (pids e 0 (length cmds)))"
proof -
  have "n_pipe (proc0 e) = 0" "n_fork (proc0 e) = 0" "stderr (proc0 e) = []" "log (proc0 e) = []"
    by (simp_all add: proc0_def)
  with parent_run [OF refl assms, of "proc0 e" cmds] obtain s' cl
    where r: "main_pipeline e cmds (int (length cmds)) (proc0 e)
             = (if list_all (stage_ok e) (pids e 0 (length cmds)) then Exit EXIT_SUCCESS s'
                else Exit EXIT_FAILURE (perror ''Child process failed'' s'))"
      "stderr s' = []"
      "log s' = pipe_calls e 0 (length cmds - 1) @ fork_calls e 0 (length cmds) @ cl
                   @ wait_calls e (waited e (pids e 0 (length cmds)))"
      "list_all is_close cl"
    by auto
  have "filter is_wait (log s') = wait_calls e (waited e (pids e 0 (length cmds)))"
    unfolding r(3) using filter_wait_closes [OF r(4)] by (simp add: filter_wait_calls)
  with r(1) r(2) show ?thesis
    by (simp add: perror_def)
qed

text \<open>
  C3, amended. \<^verbatim>\<open>close_pipes\<close> ignores what \<^verbatim>\<open>close\<close> returns: it never reports
  anything, and in the parent (the pipes and the processes were created, every
  \<^verbatim>\<open>waitpid\<close> returns the status of a child that ended) the exit status, what is
  reported and the calls of \<^verbatim>\<open>waitpid\<close> are the same whatever the calls of \<^verbatim>\<open>close\<close>
  return; when every child exits with status 0 the program exits with
  \<^verbatim>\<open>EXIT_SUCCESS\<close>. No call of \<^verbatim>\<open>close\<close> in the program is checked, and each child
  closes the pipe ends it has set aside a second time in \<^verbatim>\<open>close_pipes\<close>, where the
  call can only fail.
\<close>

theorem close_results_ignored:
  assumes "pipes_ok e (length cmds - 1)" and "forks_ok e 0 (length cmds)"
    and "list_all (reaped e) (pids e 0 (length cmds))"
  shows "exit_status (main_pipeline (e\<lparr>close_eio := f\<rparr>) cmds (int (length cmds))
             (proc0 (e\<lparr>close_eio := f\<rparr>)))
           = exit_status (main_pipeline e cmds (int (length cmds)) (proc0 e))
       \<and> out_stderr (main_pipeline (e\<lparr>close_eio := f\<rparr>) cmds (int (length cmds))
             (proc0 (e\<lparr>close_eio := f\<rparr>)))
           = out_stderr (main_pipeline e cmds (int (length cmds)) (proc0 e))
       \<and> filter is_wait (out_log (main_pipeline (e\<lparr>close_eio := f\<rparr>) cmds (int (length cmds))
             (proc0 (e\<lparr>close_eio := f\<rparr>))))
           = filter is_wait (out_log (main_pipeline e cmds (int (length cmds)) (proc0 e)))
       \<and> (list_all (stage_ok e) (pids e 0 (length cmds)) \<longrightarrow>
            exit_status (main_pipeline (e\<lparr>close_eio := f\<rparr>) cmds (int (length cmds))
               (proc0 (e\<lparr>close_eio := f\<rparr>))) = Some EXIT_SUCCESS)
       \<and> (\<forall>N pa s. stderr (close_pipes (e\<lparr>close_eio := f\<rparr>) N pa s) = stderr s)"
proof -
  let ?e = "e\<lparr>close_eio := f\<rparr>"
  have a: "pipes_ok ?e (length cmds - 1)" "forks_ok ?e 0 (length cmds)"
    "list_all (reaped ?e) (pids ?e 0 (length cmds))"
    using assms by (simp_all add: close_eio_irrelevant close_eio_stage_ok)
  from parent_run_observed [OF a] parent_run_observed [OF assms] show ?thesis
    by (simp add: close_eio_irrelevant close_eio_stage_ok close_pipes_def
        close_pipes_loop_stderr)
qed

theorem close_results_ignored_witness:
  "pipes_ok env_ok (length [''echo hello'', ''tr a-z A-Z''] - 1)
   \<and> forks_ok env_ok 0 (length [''echo hello'', ''tr a-z A-Z''])
   \<and> list_all (reaped env_ok) (pids env_ok 0 (length [''echo hello'', ''tr a-z A-Z'']))
   \<and> list_all (stage_ok env_ok) (pids env_ok 0 (length [''echo hello'', ''tr a-z A-Z'']))
   \<and> exit_status (main_pipeline (env_ok\<lparr>close_eio := (\<lambda>fd. True)\<rparr>)
         [''echo hello'', ''tr a-z A-Z''] 2 (proc0 (env_ok\<lparr>close_eio := (\<lambda>fd. True)\<rparr>))) = Some 0"
proof -
  let ?cmds = "[''echo hello'', ''tr a-z A-Z'']"
  have p: "pids env_ok 0 (length ?cmds) = [100, 101]"
    by (simp add: pids_def upt_3 env_ok_def)
  have a: "pipes_ok env_ok (length ?cmds - 1)"
    by (simp add: pipes_ok_def env_ok_def)
  have b: "forks_ok env_ok 0 (length ?cmds)"
    by (simp add: forks_ok_def upt_3 env_ok_def)
  have c: "list_all (reaped env_ok) (pids env_ok 0 (length ?cmds))"
    unfolding p by (simp add: reaped_def env_ok_def)
  have d: "list_all (stage_ok env_ok) (pids env_ok 0 (length ?cmds))"
    unfolding p by (simp add: stage_ok_def env_ok_def)
  from close_results_ignored [OF a b c, of "\<lambda>fd. True"] d
  have "exit_status (main_pipeline (env_ok\<lparr>close_eio := (\<lambda>fd. True)\<rparr>) ?cmds
      (int (length ?cmds)) (proc0 (env_ok\<lparr>close_eio := (\<lambda>fd. True)\<rparr>))) = Some EXIT_SUCCESS"
    by blast
  with a b c d show ?thesis
    by (simp add: EXIT_SUCCESS_def)
qed

subsection \<open>The Process Launcher, a pipe on descriptor 0\<close>

lemmas child_simps = redirect_stdin_def redirect_stdout_def sys_dup2_def execute_def
  sys_execlp_def STDIN_FILENO_def STDOUT_FILENO_def

lemma read_closed_stdin_file:
  "read_input env_stdin_closed (input_lines [''echo hi'', ''cat'']) (proc0 env_stdin_closed)
     = Inr (([''echo hi'', ''cat''], 2), proc0 env_stdin_closed)"
proof -
  have "allocs_ok env_stdin_closed"
    by (simp add: allocs_ok_def env_stdin_closed_def env_ok_def)
  from read_input_short_lines [OF this, of "[''echo hi'', ''cat'']" "proc0 env_stdin_closed"]
  show ?thesis
    by (simp add: plain_line_def newline_def NUL_def)
qed

text \<open>
  C6. The child is left with its redirected standard input and output only when no
  pipe sits on descriptor 0 or 1. In the run below the program is started with
  standard input closed, on a file of two commands, and the read end of the pipe is
  descriptor 0. In the child of the second command \<^verbatim>\<open>dup2(0, 0)\<close> changes nothing,
  and \<^verbatim>\<open>close_pipes\<close> then closes descriptor 0: the shell for \<^verbatim>\<open>cat\<close> starts with
  no standard input, where C6 says that standard input is the read end of pipe 0 and
  that the child retains it.
\<close>

theorem child_loses_standard_input:
  "exec_argv (main env_stdin_closed [''mexec'', ''cmds'']) = Some [''sh'', ''-c'', ''cat'']
   \<and> out_fds (main env_stdin_closed [''mexec'', ''cmds'']) 0 = None
   \<and> out_stderr (main env_stdin_closed [''mexec'', ''cmds'']) = []
   \<and> out_log (main env_stdin_closed [''mexec'', ''cmds''])
       = [SysPipe (Some (0, 3)), SysFork 100, SysFork 0, SysDup2 0 0 0, SysClose 3 0,
          SysClose 0 0, SysClose 3 (- 1), SysExeclp ''sh'' [''sh'', ''-c'', ''cat''] True]"
proof -
  have f: "fopen_res env_stdin_closed ''cmds'' = Some (input_lines [''echo hi'', ''cat''])"
    by (simp add: env_stdin_closed_def)
  have "main env_stdin_closed [''mexec'', ''cmds'']
      = main_pipeline env_stdin_closed [''echo hi'', ''cat''] 2 (proc0 env_stdin_closed)"
    by (simp add: main_def f read_closed_stdin_file)
  also have "\<dots> = Exec ''sh'' [''sh'', ''-c'', ''cat'']
      \<lparr>fds = [1 \<mapsto> Inherited 1, 2 \<mapsto> Inherited 2], stderr = [],
        log = [SysPipe (Some (0, 3)), SysFork 100, SysFork 0, SysDup2 0 0 0, SysClose 3 0,
               SysClose 0 0, SysClose 3 (- 1), SysExeclp ''sh'' [''sh'', ''-c'', ''cat''] True],
        n_pipe = 1, n_fork = 2\<rparr>"
    by (simp add: run_simps child_simps env_stdin_closed_def env_ok_def fun_eq_iff)
  finally show ?thesis by simp
qed

end
